theory Spec2Isabelle
  imports Complex_Main
begin

unbundle bit_operations_syntax

section \<open>Data model\<close>

text \<open>
  The simulator keeps \<open>2 ^ n\<close> complex amplitudes in a one-dimensional array and receives
  gates as two-dimensional arrays. Arrays are lists here, a matrix is the list of its rows.
  Amplitudes are exact complex numbers: the arithmetic of \<open>complex128\<close> is idealised, so
  every statement below is about the algorithm and not about rounding. Python integers are
  \<open>int\<close>; positions into an array are \<open>nat\<close>. The two array back ends (\<open>use_jax\<close>) run
  the same statements; library calls are read with their NumPy meaning. The precision of
  the arrays (double on NumPy, single on the other back end unless its 64-bit mode is
  switched on, which the code never does) is not modelled.
\<close>

type_synonym matrix = "complex list list"

datatype message =
    QubitCountMsg int
  | GateSizeMsg nat nat nat
  | QubitRangeMsg int int
  | NegativeShiftCount
  | GateTypeMsg
  | KeywordMsg

datatype error = ValueError message | TypeError message | IndexError | OverflowError

record FPGASimulator =
  num_qubits :: int
  dimension :: nat
  use_jax :: bool
  statevector :: "complex list"

text \<open>The result of a method call: what it returns or raises, and the object afterwards.\<close>

type_synonym ('a, 's) outcome = "(error + 'a) \<times> 's"

section \<open>quantum\_gates.py\<close>

definition I :: matrix where
  "I = [[1, 0], [0, 1]]"

definition X :: matrix where
  "X = [[0, 1], [1, 0]]"

definition Y :: matrix where
  "Y = [[0, - \<i>], [\<i>, 0]]"

definition Z :: matrix where
  "Z = [[1, 0], [0, - 1]]"

definition H :: matrix where
  "H = map (map (\<lambda>z. complex_of_real (1 / sqrt 2) * z)) [[1, 1], [1, - 1]]"

definition S :: matrix where
  "S = [[1, 0], [0, \<i>]]"

definition T :: matrix where
  "T = [[1, 0], [0, exp (\<i> * complex_of_real pi / 4)]]"

definition RX :: "real \<Rightarrow> matrix" where
  "RX theta =
     (let c = complex_of_real (cos (theta / 2));
          s = - \<i> * complex_of_real (sin (theta / 2))
      in [[c, s], [s, c]])"

definition RY :: "real \<Rightarrow> matrix" where
  "RY theta =
     (let c = complex_of_real (cos (theta / 2));
          s = complex_of_real (sin (theta / 2))
      in [[c, - s], [s, c]])"

definition RZ :: "real \<Rightarrow> matrix" where
  "RZ theta =
     [[exp (- \<i> * complex_of_real theta / 2), 0],
      [0, exp (\<i> * complex_of_real theta / 2)]]"

definition CNOT :: matrix where
  "CNOT = [[1, 0, 0, 0],
           [0, 1, 0, 0],
           [0, 0, 0, 1],
           [0, 0, 1, 0]]"

definition CZ :: matrix where
  "CZ = [[1, 0, 0, 0],
         [0, 1, 0, 0],
         [0, 0, 1, 0],
         [0, 0, 0, - 1]]"

definition SWAP :: matrix where
  "SWAP = [[1, 0, 0, 0],
           [0, 0, 1, 0],
           [0, 1, 0, 0],
           [0, 0, 0, 1]]"

definition CRX :: "real \<Rightarrow> matrix" where
  "CRX theta =
     (let c = complex_of_real (cos (theta / 2));
          s = - \<i> * complex_of_real (sin (theta / 2))
      in [[1, 0, 0, 0],
          [0, 1, 0, 0],
          [0, 0, c, s],
          [0, 0, s, c]])"

definition CRY :: "real \<Rightarrow> matrix" where
  "CRY theta =
     (let c = complex_of_real (cos (theta / 2));
          s = complex_of_real (sin (theta / 2))
      in [[1, 0, 0, 0],
          [0, 1, 0, 0],
          [0, 0, c, - s],
          [0, 0, s, c]])"

definition CRZ :: "real \<Rightarrow> matrix" where
  "CRZ theta =
     [[1, 0, 0, 0],
      [0, 1, 0, 0],
      [0, 0, exp (- \<i> * complex_of_real theta / 2), 0],
      [0, 0, 0, exp (\<i> * complex_of_real theta / 2)]]"

section \<open>fpga\_simulator.py\<close>

text \<open>\<open>zeros(dimension)\<close> with entry 0 set to \<open>1 + 0j\<close>.\<close>

definition zero_state :: "nat \<Rightarrow> complex list" where
  "zero_state d = (replicate d 0)[0 := 1]"

definition init :: "int \<Rightarrow> bool \<Rightarrow> error + FPGASimulator" where
  "init n uj =
     (if n < 1 \<or> n > 16 then Inl (ValueError (QubitCountMsg n))
      else Inr \<lparr>num_qubits = n, dimension = 2 ^ nat n, use_jax = uj,
                statevector = zero_state (2 ^ nat n)\<rparr>)"

definition reset :: "FPGASimulator \<Rightarrow> FPGASimulator" where
  "reset s = s\<lparr>statevector := zero_state (dimension s)\<rparr>"

definition get_statevector :: "FPGASimulator \<Rightarrow> complex list" where
  "get_statevector s = statevector s"

text \<open>
  \<open>int(np.log2(gate_size))\<close>: the logarithm rounded down; \<open>np.log2(0)\<close> is \<open>-inf\<close>, which
  \<open>int\<close> refuses with an OverflowError. (The floating-point logarithm is the exact one
  rounded; the two differ after \<open>int\<close> only for sizes just below a power of two from
  about \<open>2 ^ 49\<close> on, far beyond any array.)
\<close>

fun floor_log2 :: "nat \<Rightarrow> nat" where
  "floor_log2 n = (if n < 2 then 0 else Suc (floor_log2 (n div 2)))"

declare floor_log2.simps [simp del]

definition int_log2 :: "nat \<Rightarrow> error + nat" where
  "int_log2 gate_size = (if gate_size = 0 then Inl OverflowError else Inr (floor_log2 gate_size))"

text \<open>The loop \<open>affected_mask |= (1 << q)\<close>; a negative shift count raises ValueError.\<close>

fun mask_loop :: "int list \<Rightarrow> int \<Rightarrow> error + int" where
  "mask_loop [] m = Inr m"
| "mask_loop (q # qs) m =
     (if q < 0 then Inl (ValueError NegativeShiftCount)
      else mask_loop qs (m OR push_bit (nat q) 1))"

text \<open>
  The loop over \<open>sorted(qubit_indices)\<close> that collects, for the input and the output index,
  the bits at the affected qubits: the smallest qubit goes to bit position 0.
\<close>

fun extract_loop :: "int list \<Rightarrow> int \<Rightarrow> int \<Rightarrow> nat \<Rightarrow> int \<times> int \<Rightarrow> int \<times> int" where
  "extract_loop [] in_idx out_idx bit_pos acc = acc"
| "extract_loop (q # qs) in_idx out_idx bit_pos (in_affected, out_affected) =
     extract_loop qs in_idx out_idx (bit_pos + 1)
       (if drop_bit (nat q) in_idx AND 1 \<noteq> 0 then in_affected OR push_bit bit_pos 1
        else in_affected,
        if drop_bit (nat q) out_idx AND 1 \<noteq> 0 then out_affected OR push_bit bit_pos 1
        else out_affected)"

text \<open>
  \<open>gate[r, c]\<close> on a NumPy array, for indices that are never negative here. (The other
  back end clamps an index beyond the end instead of raising; the lookups are within the
  array whenever the matrix is square with \<open>2 ^ k\<close> rows for \<open>k\<close> indices.)
\<close>

definition getitem2 :: "matrix \<Rightarrow> int \<Rightarrow> int \<Rightarrow> error + complex" where
  "getitem2 gate r c =
     (if 0 \<le> r \<and> nat r < length gate \<and> 0 \<le> c \<and> nat c < length (gate ! nat r)
      then Inr (gate ! nat r ! nat c) else Inl IndexError)"

text \<open>A loop whose body may raise: the first exception ends it.\<close>

fun try_map :: "('a \<Rightarrow> error + 'b) \<Rightarrow> 'a list \<Rightarrow> error + 'b list" where
  "try_map f [] = Inr []"
| "try_map f (x # xs) =
     (case f x of
        Inl e \<Rightarrow> Inl e
      | Inr y \<Rightarrow> (case try_map f xs of Inl e \<Rightarrow> Inl e | Inr ys \<Rightarrow> Inr (y # ys)))"

text \<open>One pass of the inner loop body: the entry \<open>full_gate[out_idx, in_idx]\<close>.\<close>

definition full_gate_entry :: "matrix \<Rightarrow> int list \<Rightarrow> int \<Rightarrow> int \<Rightarrow> int \<Rightarrow> error + complex" where
  "full_gate_entry gate qubit_indices affected_mask out_idx in_idx =
     (if (in_idx AND NOT affected_mask) \<noteq> (out_idx AND NOT affected_mask) then Inr 0
      else (case extract_loop (sort qubit_indices) in_idx out_idx 0 (0, 0) of
              (in_affected, out_affected) \<Rightarrow> getitem2 gate out_affected in_affected))"

definition expand_gate_to_full_space ::
  "FPGASimulator \<Rightarrow> matrix \<Rightarrow> int list \<Rightarrow> error + matrix" where
  "expand_gate_to_full_space s gate qubit_indices =
     (case mask_loop qubit_indices 0 of
        Inl e \<Rightarrow> Inl e
      | Inr affected_mask \<Rightarrow>
          try_map (\<lambda>out_idx.
            try_map (\<lambda>in_idx.
              full_gate_entry gate qubit_indices affected_mask (int out_idx) (int in_idx))
              [0..<dimension s])
            [0..<dimension s])"

text \<open>\<open>np.dot\<close> of a matrix and a vector.\<close>

definition dot :: "matrix \<Rightarrow> complex list \<Rightarrow> complex list" where
  "dot a v = map (\<lambda>row. sum_list (map2 (*) row v)) a"

definition apply_gate ::
  "FPGASimulator \<Rightarrow> matrix \<Rightarrow> int list \<Rightarrow> (unit, FPGASimulator) outcome" where
  "apply_gate s gate_matrix qubit_indices =
     (let gate_size = length gate_matrix in
      case int_log2 gate_size of
        Inl e \<Rightarrow> (Inl e, s)
      | Inr num_affected_qubits \<Rightarrow>
          if length qubit_indices \<noteq> num_affected_qubits
          then (Inl (ValueError (GateSizeMsg gate_size num_affected_qubits
                                   (length qubit_indices))), s)
          else (case expand_gate_to_full_space s gate_matrix qubit_indices of
                  Inl e \<Rightarrow> (Inl e, s)
                | Inr full_gate \<Rightarrow>
                    (Inr (), s\<lparr>statevector := dot full_gate (statevector s)\<rparr>)))"

text \<open>
  \<open>measure\<close>, with the value \<open>u\<close> of \<open>np.random.random()\<close> as an argument. The threshold
  is the literal \<open>1e-10\<close>.
\<close>

definition prob_0_loop :: "complex list \<Rightarrow> nat \<Rightarrow> int \<Rightarrow> real" where
  "prob_0_loop state_array d qubit =
     fold (\<lambda>i prob_0.
             if drop_bit (nat qubit) (int i) AND 1 = 0
             then prob_0 + (cmod (state_array ! i))\<^sup>2 else prob_0)
          [0..<d] 0"

definition collapse :: "complex list \<Rightarrow> nat \<Rightarrow> int \<Rightarrow> int \<Rightarrow> complex list" where
  "collapse state d qubit result =
     map (\<lambda>i. if drop_bit (nat qubit) (int i) AND 1 = result then state ! i else 0) [0..<d]"

definition l2_norm :: "complex list \<Rightarrow> real" where
  "l2_norm v = sqrt (sum_list (map (\<lambda>z. (cmod z)\<^sup>2) v))"

definition measure :: "FPGASimulator \<Rightarrow> int \<Rightarrow> real \<Rightarrow> (int, FPGASimulator) outcome" where
  "measure s qubit u =
     (if qubit < 0 \<or> qubit \<ge> num_qubits s
      then (Inl (ValueError (QubitRangeMsg qubit (num_qubits s))), s)
      else
        let prob_0 = prob_0_loop (get_statevector s) (dimension s) qubit;
            result = (if u > prob_0 then 1 else 0);
            new_state = collapse (statevector s) (dimension s) qubit result;
            norm = l2_norm new_state
        in if norm > 1 / 10 ^ 10
           then (Inr result,
                 s\<lparr>statevector := map (\<lambda>z. z / complex_of_real norm) new_state\<rparr>)
           else (Inr result, reset s))"

definition get_probabilities :: "FPGASimulator \<Rightarrow> real list" where
  "get_probabilities s = map (\<lambda>z. (cmod z)\<^sup>2) (get_statevector s)"

text \<open>
  The class invariant that \<open>__init__\<close> sets up and every method keeps: the qubit count is
  within 1..16, the dimension is its power of two, and the amplitude array has that length.
\<close>

definition engine_ok :: "FPGASimulator \<Rightarrow> bool" where
  "engine_ok s \<longleftrightarrow>
     1 \<le> num_qubits s \<and> num_qubits s \<le> 16 \<and> dimension s = 2 ^ nat (num_qubits s) \<and>
     length (statevector s) = dimension s"

section \<open>circuit.py\<close>

text \<open>
  A gate argument of \<open>apply\<close> is an array, a callable that is called with the keyword
  arguments, or anything else.
\<close>

type_synonym kwargs = "(string \<times> real) list"

datatype gate_arg =
    GateArray matrix
  | GateCallable "kwargs \<Rightarrow> error + matrix"
  | GateOther

record QuantumCircuit =
  qc_num_qubits :: int
  simulator :: FPGASimulator
  gates :: "(matrix \<times> int list) list"
  measurements :: "(int \<times> int) list"
  executed :: bool

definition new_circuit :: "int \<Rightarrow> bool \<Rightarrow> error + QuantumCircuit" where
  "new_circuit n uj =
     (case init n uj of
        Inl e \<Rightarrow> Inl e
      | Inr sim \<Rightarrow> Inr \<lparr>qc_num_qubits = n, simulator = sim, gates = [], measurements = [],
                        executed = False\<rparr>)"

text \<open>The validation loop of \<open>apply\<close>: the first index out of range raises.\<close>

fun validate_qubits :: "int \<Rightarrow> int list \<Rightarrow> error + unit" where
  "validate_qubits n [] = Inr ()"
| "validate_qubits n (q # qs) =
     (if q < 0 \<or> q \<ge> n then Inl (ValueError (QubitRangeMsg q n)) else validate_qubits n qs)"

definition apply_qc :: "QuantumCircuit \<Rightarrow> gate_arg \<Rightarrow> int list \<Rightarrow> kwargs \<Rightarrow> (unit, QuantumCircuit) outcome" where
  "apply_qc c gate qubits kw =
     (case (case gate of
              GateCallable f \<Rightarrow> f kw
            | GateArray m \<Rightarrow> Inr m
            | GateOther \<Rightarrow> Inl (TypeError GateTypeMsg)) of
        Inl e \<Rightarrow> (Inl e, c)
      | Inr gate_matrix \<Rightarrow>
          (case validate_qubits (qc_num_qubits c) qubits of
             Inl e \<Rightarrow> (Inl e, c)
           | Inr _ \<Rightarrow> (Inr (), c\<lparr>gates := gates c @ [(gate_matrix, qubits)]\<rparr>)))"

text \<open>A gate function without parameters, as a callable: any keyword argument is a TypeError.\<close>

definition gate_fn :: "matrix \<Rightarrow> kwargs \<Rightarrow> error + matrix" where
  "gate_fn m kw = (if kw = [] then Inr m else Inl (TypeError KeywordMsg))"

definition h_qc :: "QuantumCircuit \<Rightarrow> int \<Rightarrow> (unit, QuantumCircuit) outcome" where
  "h_qc c qubit = apply_qc c (GateCallable (gate_fn H)) [qubit] []"

definition cnot_qc :: "QuantumCircuit \<Rightarrow> int \<Rightarrow> int \<Rightarrow> (unit, QuantumCircuit) outcome" where
  "cnot_qc c control target = apply_qc c (GateCallable (gate_fn CNOT)) [control, target] []"

text \<open>The loop of \<open>execute\<close> over the recorded gates.\<close>

fun apply_all :: "FPGASimulator \<Rightarrow> (matrix \<times> int list) list \<Rightarrow> (unit, FPGASimulator) outcome" where
  "apply_all s [] = (Inr (), s)"
| "apply_all s ((gate_matrix, qubit_indices) # gs) =
     (case apply_gate s gate_matrix qubit_indices of
        (Inl e, s') \<Rightarrow> (Inl e, s')
      | (Inr _, s') \<Rightarrow> apply_all s' gs)"

definition execute :: "QuantumCircuit \<Rightarrow> bool \<Rightarrow> (complex list, QuantumCircuit) outcome" where
  "execute c rst =
     (let sim = (if rst then reset (simulator c) else simulator c) in
      case apply_all sim (gates c) of
        (Inl e, sim') \<Rightarrow> (Inl e, c\<lparr>simulator := sim'\<rparr>)
      | (Inr _, sim') \<Rightarrow> (Inr (get_statevector sim'), c\<lparr>simulator := sim'\<rparr>))"

section \<open>Vocabulary of the properties\<close>

text \<open>Conjugate transpose, matrix product and identity matrix, written with indices.\<close>

definition ncols :: "matrix \<Rightarrow> nat" where
  "ncols m = (case m of [] \<Rightarrow> 0 | r # _ \<Rightarrow> length r)"

definition dagger :: "matrix \<Rightarrow> matrix" where
  "dagger m = map (\<lambda>j. map (\<lambda>i. cnj (m ! i ! j)) [0..<length m]) [0..<ncols m]"

definition matmul :: "matrix \<Rightarrow> matrix \<Rightarrow> matrix" where
  "matmul a b =
     map (\<lambda>row. map (\<lambda>j. sum_list (map2 (*) row (map (\<lambda>r. r ! j) b))) [0..<ncols b]) a"

definition identity :: "nat \<Rightarrow> matrix" where
  "identity n = map (\<lambda>i. map (\<lambda>j. if i = j then 1 else 0) [0..<n]) [0..<n]"

text \<open>Two matrices of the same shape agree elementwise within a tolerance.\<close>

definition allclose :: "matrix \<Rightarrow> matrix \<Rightarrow> real \<Rightarrow> bool" where
  "allclose a b tol = list_all2 (list_all2 (\<lambda>x y. cmod (x - y) \<le> tol)) a b"

text \<open>A square matrix \<open>m\<close> with \<open>m\<^sup>\<dagger> m = 1\<close>, exactly.\<close>

definition square :: "matrix \<Rightarrow> bool" where
  "square m = list_all (\<lambda>row. length row = length m) m"

definition unitary :: "matrix \<Rightarrow> bool" where
  "unitary m \<longleftrightarrow> square m \<and> matmul (dagger m) m = identity (length m)"

text \<open>\<open>sum(|amplitude|^2)\<close>.\<close>

definition norm_sq :: "complex list \<Rightarrow> real" where
  "norm_sq v = sum_list (map (\<lambda>z. (cmod z)\<^sup>2) v)"

text \<open>
  The engine after a sequence of \<open>apply_gate\<close> calls made one after the other, whether
  or not one of them raised.
\<close>

definition run_calls :: "FPGASimulator \<Rightarrow> (matrix \<times> int list) list \<Rightarrow> FPGASimulator" where
  "run_calls s calls = foldl (\<lambda>s' (m, qs). snd (apply_gate s' m qs)) s calls"

text \<open>
  A call with a unitary matrix whose size is a power of two and with distinct qubit
  indices in range.
\<close>

definition unitary_call :: "int \<Rightarrow> matrix \<times> int list \<Rightarrow> bool" where
  "unitary_call n c =
     (case c of (m, qs) \<Rightarrow>
        unitary m \<and> (\<exists>j. length m = 2 ^ j) \<and> distinct qs \<and>
        list_all (\<lambda>q. 0 \<le> q \<and> q < n) qs)"

section \<open>Auxiliary functions of the proofs\<close>

text \<open>The loop of \<open>extract_loop\<close> for one index, and the map that undoes it.\<close>

fun gather :: "int list \<Rightarrow> int \<Rightarrow> nat \<Rightarrow> int \<Rightarrow> int" where
  "gather [] idx bit_pos acc = acc"
| "gather (q # qs) idx bit_pos acc =
     gather qs idx (bit_pos + 1)
       (if drop_bit (nat q) idx AND 1 \<noteq> 0 then acc OR push_bit bit_pos 1 else acc)"

fun scatter :: "int list \<Rightarrow> int \<Rightarrow> nat \<Rightarrow> int \<Rightarrow> int" where
  "scatter [] a bit_pos acc = acc"
| "scatter (q # qs) a bit_pos acc =
     scatter qs a (bit_pos + 1) (if bit a bit_pos then acc OR push_bit (nat q) 1 else acc)"

text \<open>
  The local sub-index of a basis index, and the basis index with given bits outside the
  affected qubits and a given local sub-index.
\<close>

definition local_index :: "int list \<Rightarrow> nat \<Rightarrow> nat" where
  "local_index qs i = nat (gather (sort qs) (int i) 0 0)"

definition global_index :: "int list \<Rightarrow> int \<Rightarrow> nat \<Rightarrow> nat" where
  "global_index qs r a = nat (r OR scatter (sort qs) (int a) 0 0)"

section \<open>Small instances\<close>

lemma upt_4: "[0..<4] = [0, 1, 2, 3]"
  by (simp add: upt_rec)

lemma upt_2: "[0..<2] = [0, 1]"
  by (simp add: upt_rec)

lemma floor_log2_2: "floor_log2 (Suc (Suc 0)) = 1"
  by (simp add: floor_log2.simps)

lemma floor_log2_4: "floor_log2 (Suc (Suc (Suc (Suc 0)))) = 2"
  by (simp add: floor_log2.simps)

lemma zero_state_2: "zero_state 2 = [1, 0]"
  by (simp add: zero_state_def eval_nat_numeral)

lemma zero_state_4: "zero_state 4 = [1, 0, 0, 0]"
  by (simp add: zero_state_def eval_nat_numeral)

lemma init_1:
  "init 1 uj = Inr \<lparr>num_qubits = 1, dimension = 2, use_jax = uj, statevector = [1, 0]\<rparr>"
  by (simp add: init_def zero_state_2)

lemma init_2:
  "init 2 uj =
     Inr \<lparr>num_qubits = 2, dimension = 4, use_jax = uj, statevector = [1, 0, 0, 0]\<rparr>"
  by (simp add: init_def zero_state_4)

lemma expand_one_qubit_0_of_2:
  "dimension s = 4 \<Longrightarrow> expand_gate_to_full_space s [[a, b], [c, d]] [0] =
     Inr [[a, b, 0, 0], [c, d, 0, 0], [0, 0, a, b], [0, 0, c, d]]"
  by (simp add: expand_gate_to_full_space_def upt_4 full_gate_entry_def getitem2_def)

lemma expand_two_qubit_01_of_2:
  "dimension s = 4 \<Longrightarrow> expand_gate_to_full_space s
      [[a0, a1, a2, a3], [b0, b1, b2, b3], [c0, c1, c2, c3], [d0, d1, d2, d3]] [0, 1] =
     Inr [[a0, a1, a2, a3], [b0, b1, b2, b3], [c0, c1, c2, c3], [d0, d1, d2, d3]]"
  by (simp add: expand_gate_to_full_space_def upt_4 full_gate_entry_def getitem2_def)

lemma apply_one_qubit_0_of_2:
  "apply_gate \<lparr>num_qubits = 2, dimension = 4, use_jax = uj, statevector = [v0, v1, v2, v3]\<rparr>
      [[a, b], [c, d]] [0] =
   (Inr (), \<lparr>num_qubits = 2, dimension = 4, use_jax = uj,
      statevector = [a * v0 + b * v1, c * v0 + d * v1, a * v2 + b * v3, c * v2 + d * v3]\<rparr>)"
  by (simp add: apply_gate_def int_log2_def floor_log2_2 expand_one_qubit_0_of_2 dot_def)

lemma apply_cnot_01_of_2:
  "apply_gate \<lparr>num_qubits = 2, dimension = 4, use_jax = uj, statevector = [v0, v1, v2, v3]\<rparr>
      CNOT [0, 1] =
   (Inr (), \<lparr>num_qubits = 2, dimension = 4, use_jax = uj, statevector = [v0, v1, v3, v2]\<rparr>)"
  by (simp add: apply_gate_def int_log2_def floor_log2_4 CNOT_def expand_two_qubit_01_of_2
      dot_def)

lemma H_entries:
  "H = [[complex_of_real (1 / sqrt 2), complex_of_real (1 / sqrt 2)],
        [complex_of_real (1 / sqrt 2), - complex_of_real (1 / sqrt 2)]]"
  by (simp add: H_def)

section \<open>The Bell circuit\<close>

text \<open>
  Claim C1. On a 2-qubit engine in the all-zero state, \<open>apply_gate(H, [0])\<close> followed by
  \<open>apply_gate(CNOT, [0, 1])\<close> is claimed to give \<open>[1/\<surd>2, 0, 0, 1/\<surd>2]\<close>. The code gives
  \<open>[1/\<surd>2, 1/\<surd>2, 0, 0]\<close>: the expansion sorts the qubit indices, so the larger index
  (qubit 1, still 0) is the control of CNOT and nothing is flipped.
\<close>

theorem bell_circuit_statevector:
  "init 2 uj =
     Inr \<lparr>num_qubits = 2, dimension = 4, use_jax = uj, statevector = [1, 0, 0, 0]\<rparr> \<and>
   apply_all \<lparr>num_qubits = 2, dimension = 4, use_jax = uj, statevector = [1, 0, 0, 0]\<rparr>
      [(H, [0]), (CNOT, [0, 1])] =
   (Inr (), \<lparr>num_qubits = 2, dimension = 4, use_jax = uj,
      statevector = [complex_of_real (1 / sqrt 2), complex_of_real (1 / sqrt 2), 0, 0]\<rparr>)"
  by (simp add: init_2 H_entries apply_one_qubit_0_of_2 apply_cnot_01_of_2)

text \<open>
  The same through the circuit builder, as the benchmark builds its Bell state:
  \<open>h(0)\<close>, \<open>cnot(0, 1)\<close>, \<open>execute()\<close>.
\<close>

lemma bell_benchmark_circuit:
  "new_circuit 2 uj = Inr c0 \<Longrightarrow> h_qc c0 0 = (Inr (), c1) \<Longrightarrow> cnot_qc c1 0 1 = (Inr (), c2) \<Longrightarrow>
   fst (execute c2 True) =
     Inr [complex_of_real (1 / sqrt 2), complex_of_real (1 / sqrt 2), 0, 0]"
  by (auto simp: new_circuit_def init_2 h_qc_def cnot_qc_def apply_qc_def gate_fn_def
      execute_def reset_def zero_state_4 H_entries apply_one_qubit_0_of_2 apply_cnot_01_of_2
      get_statevector_def)

lemma bell_benchmark_circuit_runs:
  "\<exists>c0 c1 c2. new_circuit 2 uj = Inr c0 \<and> h_qc c0 0 = (Inr (), c1) \<and>
     cnot_qc c1 0 1 = (Inr (), c2)"
  by (simp add: new_circuit_def init_2 h_qc_def cnot_qc_def apply_qc_def gate_fn_def)

section \<open>Which listed qubit is the control\<close>

text \<open>
  Claim C2. The first listed qubit is claimed to be the most significant bit of the local
  index, hence the control of the fixed controlled gates. In the code the local bit
  positions follow the sorted indices. With qubit 0 set and qubit 1 clear (amplitude 1 at
  index 1), \<open>apply_gate(CNOT, [0, 1])\<close> would have to flip qubit 1 and move the amplitude to
  index 3; the code leaves the state as it is.
\<close>

theorem cnot_01_control_is_qubit_1:
  "apply_gate \<lparr>num_qubits = 2, dimension = 4, use_jax = uj, statevector = [0, 1, 0, 0]\<rparr>
      CNOT [0, 1] =
   (Inr (), \<lparr>num_qubits = 2, dimension = 4, use_jax = uj, statevector = [0, 1, 0, 0]\<rparr>)"
  by (simp add: apply_cnot_01_of_2)

section \<open>Atomicity of apply\_gate\<close>

text \<open>
  Claim C5. With a matrix of four rows and one qubit index \<open>apply_gate\<close> raises the
  ValueError about the gate size (4 rows need 2 qubits, 1 given) and the engine is
  unchanged; and whenever \<open>apply_gate\<close> raises, the engine is unchanged.
\<close>

theorem apply_gate_fail_closed:
  "(length m = 4 \<longrightarrow> apply_gate s m [q] = (Inl (ValueError (GateSizeMsg 4 2 1)), s)) \<and>
   (\<forall>e. fst (apply_gate s m' qs) = Inl e \<longrightarrow> snd (apply_gate s m' qs) = s)"
proof (intro conjI impI allI)
  assume "length m = 4"
  moreover have "floor_log2 4 = 2"
    by (simp add: floor_log2.simps)
  ultimately show "apply_gate s m [q] = (Inl (ValueError (GateSizeMsg 4 2 1)), s)"
    by (simp add: apply_gate_def int_log2_def)
next
  fix e
  assume "fst (apply_gate s m' qs) = Inl e"
  then show "snd (apply_gate s m' qs) = s"
    by (auto simp: apply_gate_def Let_def split: sum.splits if_splits)
qed

theorem apply_gate_fail_closed_witness:
  "length CNOT = 4 \<and>
   apply_gate \<lparr>num_qubits = 2, dimension = 4, use_jax = False, statevector = [1, 0, 0, 0]\<rparr>
     CNOT [0] =
   (Inl (ValueError (GateSizeMsg 4 2 1)),
    \<lparr>num_qubits = 2, dimension = 4, use_jax = False, statevector = [1, 0, 0, 0]\<rparr>) \<and>
   fst (apply_gate
     \<lparr>num_qubits = 2, dimension = 4, use_jax = False, statevector = [1, 0, 0, 0]\<rparr>
     X [0, 1]) = Inl (ValueError (GateSizeMsg 2 1 2)) \<and>
   snd (apply_gate
     \<lparr>num_qubits = 2, dimension = 4, use_jax = False, statevector = [1, 0, 0, 0]\<rparr>
     X [0, 1]) =
   \<lparr>num_qubits = 2, dimension = 4, use_jax = False, statevector = [1, 0, 0, 0]\<rparr>"
proof -
  let ?s = "\<lparr>num_qubits = 2, dimension = 4, use_jax = False, statevector = [1, 0, 0, 0]\<rparr>"
  have len: "length CNOT = 4"
    by (simp add: CNOT_def)
  have err: "fst (apply_gate ?s X [0, 1]) = Inl (ValueError (GateSizeMsg 2 1 2))"
    by (simp add: apply_gate_def int_log2_def X_def floor_log2_2)
  from apply_gate_fail_closed [of CNOT ?s 0 X "[0, 1]"] len err show ?thesis
    by simp
qed

section \<open>Order of the listed qubits\<close>

lemma mask_loop_negative:
  "\<exists>q\<in>set qs. q < 0 \<Longrightarrow> mask_loop qs m = Inl (ValueError NegativeShiftCount)"
  by (induction qs arbitrary: m) auto

lemma bit_or_push_bit_1: "bit (m OR push_bit n (1::int)) p \<longleftrightarrow> bit m p \<or> p = n"
  by (auto simp: bit_or_iff bit_exp_iff)

lemma mask_loop_bits:
  "\<forall>q\<in>set qs. 0 \<le> q \<Longrightarrow>
     \<exists>k. mask_loop qs m = Inr k \<and> (\<forall>p. bit k p \<longleftrightarrow> bit m p \<or> int p \<in> set qs)"
proof (induction qs arbitrary: m)
  case Nil
  then show ?case by simp
next
  case (Cons q qs)
  then have q: "0 \<le> q" and rest: "\<forall>q\<in>set qs. 0 \<le> q"
    by simp_all
  from Cons.IH [OF rest, of "m OR push_bit (nat q) 1"] obtain k
    where k: "mask_loop qs (m OR push_bit (nat q) 1) = Inr k"
      and bits: "\<forall>p. bit k p \<longleftrightarrow> bit (m OR push_bit (nat q) 1) p \<or> int p \<in> set qs"
    by blast
  have "bit k p \<longleftrightarrow> bit m p \<or> int p \<in> set (q # qs)" for p
  proof -
    have "bit k p \<longleftrightarrow> (bit m p \<or> p = nat q) \<or> int p \<in> set qs"
      using bits by (simp only: bit_or_push_bit_1)
    moreover have "p = nat q \<longleftrightarrow> int p = q"
      using q by linarith
    ultimately show ?thesis
      by (simp only: set_simps insert_iff) blast
  qed
  then have "\<forall>p. bit k p \<longleftrightarrow> bit m p \<or> int p \<in> set (q # qs)" ..
  moreover have "mask_loop (q # qs) m = Inr k"
    using k q by (simp only: mask_loop.simps) simp
  ultimately show ?case
    by blast
qed

lemma mask_loop_same_set:
  assumes "set qs = set qs'"
  shows "mask_loop qs 0 = mask_loop qs' 0"
proof (cases "\<exists>q\<in>set qs. q < 0")
  case True
  then show ?thesis
    using assms mask_loop_negative [of qs 0] mask_loop_negative [of qs' 0] by simp
next
  case False
  then have nn: "\<forall>q\<in>set qs. 0 \<le> q" and nn': "\<forall>q\<in>set qs'. 0 \<le> q"
    using assms by auto
  from mask_loop_bits [OF nn, of 0] obtain k
    where k: "mask_loop qs 0 = Inr k" "\<forall>p. bit k p \<longleftrightarrow> int p \<in> set qs"
    by auto
  from mask_loop_bits [OF nn', of 0] obtain k'
    where k': "mask_loop qs' 0 = Inr k'" "\<forall>p. bit k' p \<longleftrightarrow> int p \<in> set qs'"
    by auto
  have "k = k'"
    using k(2) k'(2) assms by (simp add: bit_eq_iff)
  with k(1) k'(1) show ?thesis
    by simp
qed

lemma sort_same_set:
  fixes qs :: "int list"
  assumes "distinct qs" "distinct qs'" "set qs = set qs'"
  shows "sort qs = sort qs'"
  using assms by (intro sorted_distinct_set_unique) simp_all

text \<open>
  Claim C10. For distinct index lists with the same set of indices, \<open>apply_gate\<close> does
  the same whatever the listed order (the same result or exception, the same engine
  afterwards): the mask is an OR over the indices and the local bit positions are assigned
  over \<open>sorted(qubit_indices)\<close>. In particular \<open>[a, b]\<close> and \<open>[b, a]\<close> give the same
  statevector.
\<close>

theorem apply_gate_order_irrelevant:
  assumes "distinct qs" and "distinct qs'" and "set qs = set qs'"
  shows "apply_gate s m qs = apply_gate s m qs'"
proof -
  have len: "length qs = length qs'"
  proof -
    have "length qs = card (set qs)"
      using assms(1) by (simp add: distinct_card)
    also have "\<dots> = card (set qs')"
      by (simp only: assms(3))
    also have "\<dots> = length qs'"
      using assms(2) by (simp add: distinct_card)
    finally show ?thesis .
  qed
  have srt: "sort qs = sort qs'"
    using assms by (rule sort_same_set)
  have msk: "mask_loop qs 0 = mask_loop qs' 0"
    using assms(3) by (rule mask_loop_same_set)
  have fe: "full_gate_entry m qs = full_gate_entry m qs'"
    by (intro ext) (simp add: full_gate_entry_def srt)
  have ex: "expand_gate_to_full_space s m qs = expand_gate_to_full_space s m qs'"
    unfolding expand_gate_to_full_space_def msk fe ..
  show ?thesis
    unfolding apply_gate_def len ex ..
qed

theorem apply_gate_order_irrelevant_witness:
  "distinct [1, 0 :: int] \<and> distinct [0, 1 :: int] \<and> set [1, 0 :: int] = set [0, 1] \<and>
   apply_gate \<lparr>num_qubits = 2, dimension = 4, use_jax = False, statevector = [0, 0, 1, 0]\<rparr>
     CNOT [1, 0] =
   (Inr (), \<lparr>num_qubits = 2, dimension = 4, use_jax = False, statevector = [0, 0, 0, 1]\<rparr>)"
proof -
  have d: "distinct [1, 0 :: int]" "distinct [0, 1 :: int]" "set [1, 0 :: int] = set [0, 1]"
    by auto
  have "apply_gate \<lparr>num_qubits = 2, dimension = 4, use_jax = False, statevector = [0, 0, 1, 0]\<rparr>
      CNOT [1, 0] =
    (Inr (), \<lparr>num_qubits = 2, dimension = 4, use_jax = False, statevector = [0, 0, 0, 1]\<rparr>)"
    unfolding apply_gate_order_irrelevant [OF d]
    by (rule apply_cnot_01_of_2)
  with d show ?thesis
    by blast
qed

section \<open>Replay by execute\<close>








section \<open>Measurement\<close>

lemma prob_0_of_one: "prob_0_loop [0, 1] 2 0 = 0"
  by (simp add: prob_0_loop_def upt_2)

lemma collapse_one_to_0: "collapse [0, 1] 2 0 0 = [0, 0]"
  by (simp add: collapse_def upt_2)

lemma collapse_one_to_1: "collapse [0, 1] 2 0 1 = [0, 1]"
  by (simp add: collapse_def upt_2)

text \<open>
  On one qubit in state \<open>[0, 1]\<close> the draw \<open>u = 0\<close> gives outcome 0 (\<open>u > prob_0\<close> is
  false), the collapsed amplitudes have norm 0, and \<open>measure\<close> resets the engine and
  returns 0: no exception reaches the caller.
\<close>

theorem measure_zero_norm_returns_silently:
  "l2_norm (collapse [0, 1] 2 0 0) < 1 / 10 ^ 10 \<and>
   measure \<lparr>num_qubits = 1, dimension = 2, use_jax = False, statevector = [0, 1]\<rparr> 0 0 =
   (Inr 0, \<lparr>num_qubits = 1, dimension = 2, use_jax = False, statevector = [1, 0]\<rparr>)"
  by (simp add: measure_def get_statevector_def prob_0_of_one collapse_one_to_0 l2_norm_def
      reset_def zero_state_2)

text \<open>
  Claim C4, as the code has it. For a qubit in range, when the norm of the collapsed
  amplitudes is not above \<open>1e-10\<close>, \<open>measure\<close> resets the engine to the all-zero state
  and returns the sampled outcome; it raises nothing.
\<close>

theorem measure_small_norm_resets:
  assumes "0 \<le> qubit" and "qubit < num_qubits s"
    and "b = (if u > prob_0_loop (statevector s) (dimension s) qubit then 1 else 0)"
    and "l2_norm (collapse (statevector s) (dimension s) qubit b) \<le> 1 / 10 ^ 10"
  shows "measure s qubit u = (Inr b, s\<lparr>statevector := zero_state (dimension s)\<rparr>)"
  using assms by (simp add: measure_def get_statevector_def reset_def Let_def)

theorem measure_small_norm_resets_witness:
  "(0::int) \<le> 0 \<and> (0::int) < 1 \<and>
   l2_norm (collapse [0, 1] 2 0 0) \<le> 1 / 10 ^ 10 \<and>
   measure \<lparr>num_qubits = 1, dimension = 2, use_jax = False, statevector = [0, 1]\<rparr> 0 0 =
   (Inr 0, \<lparr>num_qubits = 1, dimension = 2, use_jax = False, statevector = [1, 0]\<rparr>)"
proof -
  let ?s = "\<lparr>num_qubits = 1, dimension = 2, use_jax = False, statevector = [0, 1]\<rparr>"
  have b: "(0::int) = (if (0::real) > prob_0_loop (statevector ?s) (dimension ?s) 0 then 1 else 0)"
    by (simp add: prob_0_of_one)
  have n: "l2_norm (collapse (statevector ?s) (dimension ?s) 0 0) \<le> 1 / 10 ^ 10"
    by (simp add: collapse_one_to_0 l2_norm_def)
  from measure_small_norm_resets [of 0 ?s 0 0, OF _ _ b n] n show ?thesis
    by (simp add: zero_state_2)
qed

text \<open>
  Claim C8. Measuring a qubit again right after a measurement is claimed to repeat the
  outcome for every draw in \<open>[0, 1)\<close>. On one qubit in state \<open>[0, 1]\<close> the first measurement
  (draw \<open>1/2\<close>) returns 1 and leaves the state; the second with draw \<open>0\<close> returns 0, since
  the outcome is \<open>int(u > prob_0)\<close> and \<open>0 > 0\<close> is false.
\<close>

theorem remeasure_flips_at_zero_draw:
  "fst (measure \<lparr>num_qubits = 1, dimension = 2, use_jax = False, statevector = [0, 1]\<rparr>
         0 (1 / 2)) = Inr 1 \<and>
   fst (measure
         (snd (measure \<lparr>num_qubits = 1, dimension = 2, use_jax = False,
                         statevector = [0, 1]\<rparr> 0 (1 / 2)))
         0 0) = Inr 0"
proof -
  let ?s = "\<lparr>num_qubits = 1, dimension = 2, use_jax = False, statevector = [0, 1]\<rparr>"
  have first: "measure ?s 0 (1 / 2) = (Inr 1, ?s)"
    by (simp add: measure_def get_statevector_def prob_0_of_one collapse_one_to_1 l2_norm_def)
  have second: "fst (measure ?s 0 0) = Inr 0"
    by (simp add: measure_def get_statevector_def prob_0_of_one collapse_one_to_0 l2_norm_def)
  show ?thesis
    unfolding first using second by simp
qed


section \<open>Unitarity of the gate library\<close>

lemma allclose_same: "0 \<le> tol \<Longrightarrow> allclose a a tol"
  by (simp add: allclose_def list_all2_same)

lemma dagger_2x2: "dagger [[a, b], [c, d]] = [[cnj a, cnj c], [cnj b, cnj d]]"
  by (simp add: dagger_def ncols_def)

lemma matmul_2x2:
  "matmul [[a, b], [c, d]] [[e, f], [g, k]] =
     [[a * e + b * g, a * f + b * k], [c * e + d * g, c * f + d * k]]"
  by (simp add: matmul_def ncols_def)

lemma identity_2: "identity 2 = [[1, 0], [0, 1]]"
  by (simp add: identity_def upt_2)

lemma dagger_4x4:
  "dagger [[a0, a1, a2, a3], [b0, b1, b2, b3], [c0, c1, c2, c3], [d0, d1, d2, d3]] =
     [[cnj a0, cnj b0, cnj c0, cnj d0], [cnj a1, cnj b1, cnj c1, cnj d1],
      [cnj a2, cnj b2, cnj c2, cnj d2], [cnj a3, cnj b3, cnj c3, cnj d3]]"
  by (simp add: dagger_def ncols_def)

lemma identity_4: "identity 4 = [[1, 0, 0, 0], [0, 1, 0, 0], [0, 0, 1, 0], [0, 0, 0, 1]]"
  by (simp add: identity_def upt_4)

lemma matmul_4x4:
  "matmul [[a0, a1, a2, a3], [b0, b1, b2, b3], [c0, c1, c2, c3], [d0, d1, d2, d3]]
          [[e0, e1, e2, e3], [f0, f1, f2, f3], [g0, g1, g2, g3], [h0, h1, h2, h3]] =
     map (\<lambda>(r0, r1, r2, r3).
        [r0 * e0 + r1 * f0 + r2 * g0 + r3 * h0, r0 * e1 + r1 * f1 + r2 * g1 + r3 * h1,
         r0 * e2 + r1 * f2 + r2 * g2 + r3 * h2, r0 * e3 + r1 * f3 + r2 * g3 + r3 * h3])
       [(a0, a1, a2, a3), (b0, b1, b2, b3), (c0, c1, c2, c3), (d0, d1, d2, d3)]"
  by (simp add: matmul_def ncols_def add.assoc)


lemma cos_sin_sq: "complex_of_real (cos t) * complex_of_real (cos t) +
    complex_of_real (sin t) * complex_of_real (sin t) = 1"
proof -
  have "complex_of_real (cos t * cos t + sin t * sin t) = 1"
    using sin_cos_squared_add2 [of t] by (simp add: power2_eq_square)
  then show ?thesis
    by (simp only: of_real_add of_real_mult)
qed

lemma sin_cos_sq: "complex_of_real (sin t) * complex_of_real (sin t) +
    complex_of_real (cos t) * complex_of_real (cos t) = 1"
proof -
  have "complex_of_real (sin t * sin t + cos t * cos t) = 1"
    using sin_cos_squared_add [of t] by (simp add: power2_eq_square)
  then show ?thesis
    by (simp only: of_real_add of_real_mult)
qed

lemma sqrt_2_sq: "complex_of_real (sqrt 2) * complex_of_real (sqrt 2) = 2"
  by (simp flip: of_real_mult)

lemma ii_mult: "\<i> * a * (\<i> * b) = - (a * b)"
  by (simp add: mult.assoc mult.left_commute [of a \<i>])

lemma exp_pos_half: "exp (\<i> * complex_of_real t / 2) = cis (t / 2)"
  by (simp add: cis_conv_exp)

lemma exp_neg_half: "exp (- \<i> * complex_of_real t / 2) = cis (- (t / 2))"
  by (simp add: cis_conv_exp)

lemma exp_quarter_pi: "exp (\<i> * complex_of_real pi / 4) = cis (pi / 4)"
  by (simp add: cis_conv_exp)

lemma cnj_cis_mult_cis: "cnj (cis a) * cis a = 1"
  by (simp add: cis_cnj cis_mult)

lemma T_entries: "T = [[1, 0], [0, cis (pi / 4)]]"
  by (simp only: T_def exp_quarter_pi)

lemma RZ_entries: "RZ theta = [[cis (- (theta / 2)), 0], [0, cis (theta / 2)]]"
  by (simp only: RZ_def exp_pos_half exp_neg_half)

lemma CRZ_entries:
  "CRZ theta = [[1, 0, 0, 0], [0, 1, 0, 0], [0, 0, cis (- (theta / 2)), 0],
                [0, 0, 0, cis (theta / 2)]]"
  by (simp only: CRZ_def exp_pos_half exp_neg_half)

lemma unitary_I: "matmul (dagger I) I = identity 2"
  by (simp add: I_def dagger_2x2 matmul_2x2 identity_2)

lemma unitary_X: "matmul (dagger X) X = identity 2"
  by (simp add: X_def dagger_2x2 matmul_2x2 identity_2)

lemma unitary_Y: "matmul (dagger Y) Y = identity 2"
  by (simp add: Y_def dagger_2x2 matmul_2x2 identity_2)

lemma unitary_Z: "matmul (dagger Z) Z = identity 2"
  by (simp add: Z_def dagger_2x2 matmul_2x2 identity_2)

lemma unitary_H: "matmul (dagger H) H = identity 2"
  by (simp add: H_entries dagger_2x2 matmul_2x2 identity_2 sqrt_2_sq)

lemma unitary_S: "matmul (dagger S) S = identity 2"
  by (simp add: S_def dagger_2x2 matmul_2x2 identity_2)

lemma unitary_T: "matmul (dagger T) T = identity 2"
  by (simp only: T_entries dagger_2x2 matmul_2x2 identity_2 cnj_cis_mult_cis) simp

lemma unitary_RX: "matmul (dagger (RX theta)) (RX theta) = identity 2"
  by (simp add: RX_def dagger_2x2 matmul_2x2 identity_2 Let_def ii_mult cos_sin_sq sin_cos_sq)

lemma unitary_RY: "matmul (dagger (RY theta)) (RY theta) = identity 2"
  by (simp add: RY_def dagger_2x2 matmul_2x2 identity_2 Let_def cos_sin_sq sin_cos_sq)

lemma unitary_RZ: "matmul (dagger (RZ theta)) (RZ theta) = identity 2"
  by (simp only: RZ_entries dagger_2x2 matmul_2x2 identity_2 cnj_cis_mult_cis) simp

lemma unitary_CNOT: "matmul (dagger CNOT) CNOT = identity 4"
  by (simp add: CNOT_def dagger_4x4 matmul_4x4 identity_4)

lemma unitary_CZ: "matmul (dagger CZ) CZ = identity 4"
  by (simp add: CZ_def dagger_4x4 matmul_4x4 identity_4)

lemma unitary_SWAP: "matmul (dagger SWAP) SWAP = identity 4"
  by (simp add: SWAP_def dagger_4x4 matmul_4x4 identity_4)

lemma unitary_CRX: "matmul (dagger (CRX theta)) (CRX theta) = identity 4"
  by (simp add: CRX_def dagger_4x4 matmul_4x4 identity_4 Let_def ii_mult cos_sin_sq
      sin_cos_sq)

lemma unitary_CRY: "matmul (dagger (CRY theta)) (CRY theta) = identity 4"
  by (simp add: CRY_def dagger_4x4 matmul_4x4 identity_4 Let_def cos_sin_sq sin_cos_sq)

lemma unitary_CRZ: "matmul (dagger (CRZ theta)) (CRZ theta) = identity 4"
  by (simp only: CRZ_entries dagger_4x4 matmul_4x4 identity_4) (simp add: cnj_cis_mult_cis)

text \<open>
  Claim C7. For every gate of the library, the fixed ones and the rotations at every real
  angle, \<open>G\<^sup>\<dagger> G\<close> agrees with the identity of the same size within \<open>1e-9\<close> in every
  entry. With exact amplitudes the two matrices are equal.
\<close>

theorem gate_library_unitary:
  "list_all (\<lambda>g. allclose (matmul (dagger g) g) (identity (length g)) (1 / 10 ^ 9))
     [I, X, Y, Z, H, S, T, CNOT, CZ, SWAP,
      RX theta, RY theta, RZ theta, CRX theta, CRY theta, CRZ theta]"
proof -
  have len2: "length I = 2" "length X = 2" "length Y = 2" "length Z = 2" "length H = 2"
      "length S = 2" "length T = 2" "length (RX theta) = 2" "length (RY theta) = 2"
      "length (RZ theta) = 2"
    by (simp_all add: I_def X_def Y_def Z_def H_def S_def T_def RX_def RY_def RZ_def Let_def)
  have len4: "length CNOT = 4" "length CZ = 4" "length SWAP = 4" "length (CRX theta) = 4"
      "length (CRY theta) = 4" "length (CRZ theta) = 4"
    by (simp_all add: CNOT_def CZ_def SWAP_def CRX_def CRY_def CRZ_def Let_def)
  show ?thesis
    by (simp add: len2 len4 unitary_I unitary_X unitary_Y unitary_Z unitary_H
        unitary_S unitary_T unitary_CNOT unitary_CZ unitary_SWAP unitary_RX unitary_RY
        unitary_RZ unitary_CRX unitary_CRY unitary_CRZ allclose_same)
qed

section \<open>Norm preservation\<close>

subsection \<open>Bits of the local index\<close>

lemma shifted_bit_test: "drop_bit n (k::int) AND 1 \<noteq> 0 \<longleftrightarrow> bit k n"
  by (simp add: and_one_eq bit_iff_odd_drop_bit odd_iff_mod_2_eq_one)

lemma extract_loop_gather:
  "extract_loop qs i j bp (a, b) = (gather qs i bp a, gather qs j bp b)"
  by (induction qs arbitrary: bp a b) simp_all

lemma gather_bits:
  "bit (gather qs idx bp acc) p \<longleftrightarrow>
     bit acc p \<or> (\<exists>j<length qs. p = bp + j \<and> bit idx (nat (qs ! j)))"
proof (induction qs arbitrary: bp acc)
  case Nil
  show ?case by simp
next
  case (Cons q qs)
  let ?acc = "if drop_bit (nat q) idx AND 1 \<noteq> 0 then acc OR push_bit bp 1 else acc"
  have acc: "bit ?acc p \<longleftrightarrow> bit acc p \<or> (p = bp \<and> bit idx (nat q))"
    by (simp only: shifted_bit_test bit_or_push_bit_1 if_distrib [of "\<lambda>k. bit k p"]) auto
  have "bit (gather (q # qs) idx bp acc) p \<longleftrightarrow> bit (gather qs idx (bp + 1) ?acc) p"
    by (simp only: gather.simps)
  also have "\<dots> \<longleftrightarrow> bit ?acc p \<or> (\<exists>j<length qs. p = bp + 1 + j \<and> bit idx (nat (qs ! j)))"
    by (rule Cons.IH)
  also have "\<dots> \<longleftrightarrow> bit acc p \<or> (p = bp \<and> bit idx (nat q)) \<or>
      (\<exists>j<length qs. p = bp + Suc j \<and> bit idx (nat ((q # qs) ! Suc j)))"
    by (simp only: acc) auto
  also have "\<dots> \<longleftrightarrow> bit acc p \<or> (\<exists>j<length (q # qs). p = bp + j \<and> bit idx (nat ((q # qs) ! j)))"
    by (simp only: length_Cons Ex_less_Suc2) simp
  finally show ?case .
qed

lemma scatter_bits:
  "bit (scatter qs a bp acc) p \<longleftrightarrow>
     bit acc p \<or> (\<exists>j<length qs. p = nat (qs ! j) \<and> bit a (bp + j))"
proof (induction qs arbitrary: bp acc)
  case Nil
  show ?case by simp
next
  case (Cons q qs)
  let ?acc = "if bit a bp then acc OR push_bit (nat q) 1 else acc"
  have acc: "bit ?acc p \<longleftrightarrow> bit acc p \<or> (p = nat q \<and> bit a bp)"
    by (simp only: bit_or_push_bit_1 if_distrib [of "\<lambda>k. bit k p"]) auto
  have "bit (scatter (q # qs) a bp acc) p \<longleftrightarrow> bit (scatter qs a (bp + 1) ?acc) p"
    by (simp only: scatter.simps)
  also have "\<dots> \<longleftrightarrow> bit ?acc p \<or> (\<exists>j<length qs. p = nat (qs ! j) \<and> bit a (bp + 1 + j))"
    by (rule Cons.IH)
  also have "\<dots> \<longleftrightarrow> bit acc p \<or> (p = nat q \<and> bit a bp) \<or>
      (\<exists>j<length qs. p = nat ((q # qs) ! Suc j) \<and> bit a (bp + Suc j))"
    by (simp only: acc) auto
  also have "\<dots> \<longleftrightarrow> bit acc p \<or> (\<exists>j<length (q # qs). p = nat ((q # qs) ! j) \<and> bit a (bp + j))"
    by (simp only: length_Cons Ex_less_Suc2) simp
  finally show ?case .
qed

lemma gather_nonneg: "0 \<le> acc \<Longrightarrow> 0 \<le> gather qs idx bp acc"
  by (induction qs arbitrary: bp acc) simp_all

lemma scatter_nonneg: "0 \<le> acc \<Longrightarrow> 0 \<le> scatter qs a bp acc"
  by (induction qs arbitrary: bp acc) simp_all

lemma nat_less_exp_if_bits:
  fixes m :: nat
  assumes "\<And>j. bit m j \<Longrightarrow> j < k"
  shows "m < 2 ^ k"
proof -
  have "take_bit k m = m"
    by (rule bit_eqI) (use assms in \<open>auto simp: bit_take_bit_iff\<close>)
  then show ?thesis
    by (simp only: take_bit_nat_eq_self_iff)
qed

lemma bit_less_exp:
  fixes m :: nat
  assumes "m < 2 ^ k" and "bit m j"
  shows "j < k"
proof (rule ccontr)
  assume "\<not> j < k"
  then have "(2::nat) ^ k \<le> 2 ^ j"
    by (intro power_increasing) simp_all
  with assms(1) have "m < 2 ^ j"
    by (rule less_le_trans)
  then have "\<not> bit m j"
    by (simp add: bit_iff_odd)
  with assms(2) show False
    by simp
qed

lemma local_index_bits:
  "bit (local_index qs i) j \<longleftrightarrow> j < length qs \<and> bit i (nat (sort qs ! j))"
proof -
  have "0 \<le> gather (sort qs) (int i) 0 0"
    by (rule gather_nonneg) simp
  then have "bit (local_index qs i) j \<longleftrightarrow> bit (gather (sort qs) (int i) 0 0) j"
    by (simp add: local_index_def bit_nat_iff)
  also have "\<dots> \<longleftrightarrow> (\<exists>j'<length (sort qs). j = 0 + j' \<and> bit (int i) (nat (sort qs ! j')))"
    by (simp only: gather_bits) simp
  also have "\<dots> \<longleftrightarrow> j < length qs \<and> bit i (nat (sort qs ! j))"
    by (auto simp: bit_of_nat_iff_bit)
  finally show ?thesis .
qed

lemma local_index_less: "local_index qs i < 2 ^ length qs"
  by (rule nat_less_exp_if_bits) (simp add: local_index_bits)

subsection \<open>The index bijection\<close>

lemma target_position:
  assumes "\<forall>q\<in>set qs. 0 \<le> q"
  shows "int p \<in> set qs \<longleftrightarrow> (\<exists>j<length qs. p = nat (sort qs ! j))"
proof
  assume "int p \<in> set qs"
  then have "int p \<in> set (sort qs)"
    by simp
  then obtain j where "j < length (sort qs)" and "sort qs ! j = int p"
    unfolding in_set_conv_nth by blast
  then have "j < length qs \<and> p = nat (sort qs ! j)"
    by simp
  then show "\<exists>j<length qs. p = nat (sort qs ! j)" ..
next
  assume "\<exists>j<length qs. p = nat (sort qs ! j)"
  then obtain j where j: "j < length qs" and p: "p = nat (sort qs ! j)"
    by blast
  from j have mem: "sort qs ! j \<in> set qs"
    using nth_mem [of j "sort qs"] by simp
  with assms have "0 \<le> sort qs ! j"
    by blast
  with p have "int p = sort qs ! j"
    by simp
  with mem show "int p \<in> set qs"
    by simp
qed

lemma target_position_unique:
  assumes "distinct qs" and "\<forall>q\<in>set qs. 0 \<le> q"
    and "j < length qs" and "j' < length qs" and "nat (sort qs ! j) = nat (sort qs ! j')"
  shows "j = j'"
proof -
  have "sort qs ! j \<in> set qs" "sort qs ! j' \<in> set qs"
    using assms(3,4) by (metis length_sort nth_mem set_sort)+
  with assms(2) have "0 \<le> sort qs ! j" "0 \<le> sort qs ! j'"
    by blast+
  with assms(5) have "sort qs ! j = sort qs ! j'"
    by simp
  moreover have "distinct (sort qs)"
    using assms(1) by simp
  ultimately show ?thesis
    using assms(3,4) by (simp add: nth_eq_iff_index_eq)
qed

lemma rest_bits:
  assumes "\<forall>p. bit msk p \<longleftrightarrow> int p \<in> set qs"
  shows "bit (int i AND NOT msk) p \<longleftrightarrow> bit i p \<and> int p \<notin> set qs"
  using assms by (simp add: bit_and_iff bit_not_int_iff bit_of_nat_iff_bit)

lemma global_index_bits:
  assumes "0 \<le> r"
  shows "bit (global_index qs r a) p \<longleftrightarrow>
    bit r p \<or> (\<exists>j<length qs. p = nat (sort qs ! j) \<and> bit a j)"
proof -
  have "0 \<le> scatter (sort qs) (int a) 0 0"
    by (rule scatter_nonneg) simp
  with assms have "bit (global_index qs r a) p \<longleftrightarrow>
      bit (r OR scatter (sort qs) (int a) 0 0) p"
    by (simp add: global_index_def bit_nat_iff)
  also have "\<dots> \<longleftrightarrow> bit r p \<or>
      (\<exists>j<length (sort qs). p = nat (sort qs ! j) \<and> bit (int a) (0 + j))"
    by (simp only: bit_or_iff scatter_bits) simp
  also have "\<dots> \<longleftrightarrow> bit r p \<or> (\<exists>j<length qs. p = nat (sort qs ! j) \<and> bit a j)"
    by (simp add: bit_of_nat_iff_bit)
  finally show ?thesis .
qed

lemma rest_nonneg: "0 \<le> int i AND NOT msk"
  by simp

lemma local_index_inj:
  assumes nonneg: "\<forall>q\<in>set qs. 0 \<le> q"
    and msk: "\<forall>p. bit msk p \<longleftrightarrow> int p \<in> set qs"
    and rest: "int i AND NOT msk = int i' AND NOT msk"
    and loc: "local_index qs i = local_index qs i'"
  shows "i = i'"
proof (rule bit_eqI)
  fix p
  show "bit i p \<longleftrightarrow> bit i' p"
  proof (cases "int p \<in> set qs")
    case True
    with target_position [OF nonneg, of p] obtain j
      where j: "j < length qs" and p: "p = nat (sort qs ! j)"
      by blast
    have "bit i p \<longleftrightarrow> bit (local_index qs i) j"
      using j p by (simp add: local_index_bits)
    also have "\<dots> \<longleftrightarrow> bit (local_index qs i') j"
      by (simp only: loc)
    also have "\<dots> \<longleftrightarrow> bit i' p"
      using j p by (simp add: local_index_bits)
    finally show ?thesis .
  next
    case False
    then have "bit i p \<longleftrightarrow> bit (int i AND NOT msk) p"
      by (simp add: rest_bits [OF msk])
    also have "\<dots> \<longleftrightarrow> bit (int i' AND NOT msk) p"
      by (simp only: rest)
    also have "\<dots> \<longleftrightarrow> bit i' p"
      using False by (simp add: rest_bits [OF msk])
    finally show ?thesis .
  qed
qed

lemma global_of_local:
  assumes nonneg: "\<forall>q\<in>set qs. 0 \<le> q"
    and msk: "\<forall>p. bit msk p \<longleftrightarrow> int p \<in> set qs"
  shows "global_index qs (int i AND NOT msk) (local_index qs i) = i"
proof (rule bit_eqI)
  fix p
  have "bit (global_index qs (int i AND NOT msk) (local_index qs i)) p \<longleftrightarrow>
      (bit i p \<and> int p \<notin> set qs) \<or>
      (\<exists>j<length qs. p = nat (sort qs ! j) \<and> bit (local_index qs i) j)"
    by (simp only: global_index_bits [OF rest_nonneg] rest_bits [OF msk])
  also have "\<dots> \<longleftrightarrow> (bit i p \<and> int p \<notin> set qs) \<or>
      (\<exists>j<length qs. p = nat (sort qs ! j) \<and> bit i p)"
    by (auto simp: local_index_bits)
  also have "\<dots> \<longleftrightarrow> (bit i p \<and> int p \<notin> set qs) \<or> (int p \<in> set qs \<and> bit i p)"
    by (simp only: target_position [OF nonneg]) blast
  also have "\<dots> \<longleftrightarrow> bit i p"
    by blast
  finally show "bit (global_index qs (int i AND NOT msk) (local_index qs i)) p \<longleftrightarrow> bit i p" .
qed

lemma global_index_less:
  assumes range: "\<forall>q\<in>set qs. 0 \<le> q \<and> q < int n"
    and i: "i < 2 ^ n"
  shows "global_index qs (int i AND NOT msk) a < 2 ^ n"
proof (rule nat_less_exp_if_bits)
  fix p
  assume "bit (global_index qs (int i AND NOT msk) a) p"
  then consider "bit (int i AND NOT msk) p"
    | j where "j < length qs" "p = nat (sort qs ! j)"
    by (auto simp: global_index_bits [OF rest_nonneg])
  then show "p < n"
  proof cases
    case 1
    then have "bit i p"
      by (simp add: bit_and_iff bit_of_nat_iff_bit)
    with i show ?thesis
      by (rule bit_less_exp)
  next
    case 2
    then have "sort qs ! j \<in> set qs"
      by (metis length_sort nth_mem set_sort)
    with range have "0 \<le> sort qs ! j \<and> sort qs ! j < int n"
      by blast
    then have "nat (sort qs ! j) < n"
      by linarith
    with 2 show ?thesis
      by simp
  qed
qed

lemma rest_of_global:
  assumes nonneg: "\<forall>q\<in>set qs. 0 \<le> q"
    and msk: "\<forall>p. bit msk p \<longleftrightarrow> int p \<in> set qs"
  shows "int (global_index qs (int i AND NOT msk) a) AND NOT msk = int i AND NOT msk"
proof (rule bit_eqI)
  fix p
  have "bit (int (global_index qs (int i AND NOT msk) a) AND NOT msk) p \<longleftrightarrow>
      ((bit i p \<and> int p \<notin> set qs) \<or> (\<exists>j<length qs. p = nat (sort qs ! j) \<and> bit a j)) \<and>
      int p \<notin> set qs"
    by (simp only: rest_bits [OF msk] global_index_bits [OF rest_nonneg])
  also have "\<dots> \<longleftrightarrow> bit i p \<and> int p \<notin> set qs"
    using target_position [OF nonneg, of p] by blast
  also have "\<dots> \<longleftrightarrow> bit (int i AND NOT msk) p"
    by (simp only: rest_bits [OF msk])
  finally show "bit (int (global_index qs (int i AND NOT msk) a) AND NOT msk) p \<longleftrightarrow>
      bit (int i AND NOT msk) p" .
qed

lemma local_of_global:
  assumes dist: "distinct qs"
    and nonneg: "\<forall>q\<in>set qs. 0 \<le> q"
    and msk: "\<forall>p. bit msk p \<longleftrightarrow> int p \<in> set qs"
    and a: "a < 2 ^ length qs"
  shows "local_index qs (global_index qs (int i AND NOT msk) a) = a"
proof (rule bit_eqI)
  fix j
  show "bit (local_index qs (global_index qs (int i AND NOT msk) a)) j \<longleftrightarrow> bit a j"
  proof (cases "j < length qs")
    case False
    with a have "\<not> bit a j"
      using bit_less_exp by blast
    with False show ?thesis
      by (simp add: local_index_bits)
  next
    case True
    let ?p = "nat (sort qs ! j)"
    have target: "int ?p \<in> set qs"
      using target_position [OF nonneg, of ?p] True by blast
    have "bit (local_index qs (global_index qs (int i AND NOT msk) a)) j \<longleftrightarrow>
        bit (global_index qs (int i AND NOT msk) a) ?p"
      using True by (simp add: local_index_bits)
    also have "\<dots> \<longleftrightarrow> (bit i ?p \<and> int ?p \<notin> set qs) \<or>
        (\<exists>j'<length qs. ?p = nat (sort qs ! j') \<and> bit a j')"
      by (simp only: global_index_bits [OF rest_nonneg] rest_bits [OF msk])
    also have "\<dots> \<longleftrightarrow> (\<exists>j'<length qs. ?p = nat (sort qs ! j') \<and> bit a j')"
      using target by blast
    also have "\<dots> \<longleftrightarrow> bit a j"
      using True target_position_unique [OF dist nonneg True] by blast
    finally show ?thesis .
  qed
qed

subsection \<open>Sums over lists\<close>

lemma sum_list_upt: "sum_list (map f [0..<n]) = (\<Sum>i<n. f i)"
  by (induction n) simp_all

lemma sum_list_map2_upt:
  fixes v :: "complex list"
  assumes "length v = n"
  shows "sum_list (map2 (*) (map f [0..<n]) v) = (\<Sum>i<n. f i * v ! i)"
proof -
  have "map2 (*) (map f [0..<n]) v = map (\<lambda>i. f i * v ! i) [0..<n]"
    using assms by (intro nth_equalityI) simp_all
  then show ?thesis
    by (simp only: sum_list_upt)
qed

lemma norm_sq_upt: "norm_sq (map g [0..<n]) = (\<Sum>i<n. (cmod (g i))\<^sup>2)"
  by (simp add: norm_sq_def comp_def sum_list_upt)

lemma norm_sq_nth: "norm_sq v = (\<Sum>i<length v. (cmod (v ! i))\<^sup>2)"
proof -
  have "norm_sq v = norm_sq (map (\<lambda>i. v ! i) [0..<length v])"
    by (simp only: map_nth)
  then show ?thesis
    by (simp only: norm_sq_upt)
qed

lemma try_map_all_Inr:
  "(\<And>x. x \<in> set xs \<Longrightarrow> f x = Inr (g x)) \<Longrightarrow> try_map f xs = Inr (map g xs)"
  by (induction xs) simp_all

subsection \<open>Entries of a unitary matrix\<close>

lemma square_row_length: "square m \<Longrightarrow> a < length m \<Longrightarrow> length (m ! a) = length m"
  by (simp add: square_def list_all_length)

lemma square_ncols: "square m \<Longrightarrow> ncols m = length m"
  by (cases m) (simp_all add: ncols_def square_def)

lemma unitary_entries:
  assumes "unitary m" and b: "b < length m" and c: "c < length m"
  shows "(\<Sum>a<length m. cnj (m ! a ! b) * m ! a ! c) = (if b = c then 1 else 0)"
proof -
  from assms(1) have sq: "square m" and eq: "matmul (dagger m) m = identity (length m)"
    by (simp_all add: unitary_def)
  have nc: "ncols m = length m"
    using sq by (rule square_ncols)
  have row: "dagger m ! b = map (\<lambda>i. cnj (m ! i ! b)) [0..<length m]"
    using b by (simp add: dagger_def nc)
  have "matmul (dagger m) m ! b ! c =
      sum_list (map2 (*) (dagger m ! b) (map (\<lambda>r. r ! c) m))"
    using b c by (simp add: matmul_def nc dagger_def)
  also have "\<dots> = (\<Sum>a<length m. cnj (m ! a ! b) * map (\<lambda>r. r ! c) m ! a)"
    unfolding row by (rule sum_list_map2_upt) simp
  also have "\<dots> = (\<Sum>a<length m. cnj (m ! a ! b) * m ! a ! c)"
    by (rule sum.cong) simp_all
  finally have "(\<Sum>a<length m. cnj (m ! a ! b) * m ! a ! c) = identity (length m) ! b ! c"
    by (simp only: eq)
  also have "\<dots> = (if b = c then 1 else 0)"
    using b c by (simp add: identity_def)
  finally show ?thesis .
qed

subsection \<open>An isometry keeps the sum of squares\<close>

lemma isometry_sum:
  fixes F :: "nat \<Rightarrow> nat \<Rightarrow> complex" and v :: "nat \<Rightarrow> complex"
  assumes orth: "\<And>i j. i < d \<Longrightarrow> j < d \<Longrightarrow>
      (\<Sum>k<d. cnj (F k i) * F k j) = (if i = j then 1 else 0)"
  shows "(\<Sum>k<d. (cmod (\<Sum>i<d. F k i * v i))\<^sup>2) = (\<Sum>i<d. (cmod (v i))\<^sup>2)"
proof -
  have sq: "complex_of_real ((cmod z)\<^sup>2) = cnj z * z" for z
    by (simp only: complex_norm_square mult.commute [of "cnj z"])
  have "complex_of_real (\<Sum>k<d. (cmod (\<Sum>i<d. F k i * v i))\<^sup>2) =
      (\<Sum>k<d. cnj (\<Sum>i<d. F k i * v i) * (\<Sum>j<d. F k j * v j))"
    by (simp only: of_real_sum sq)
  also have "\<dots> = (\<Sum>k<d. \<Sum>i<d. \<Sum>j<d. (cnj (F k i) * F k j) * (cnj (v i) * v j))"
  proof (rule sum.cong [OF refl])
    fix k
    have "cnj (\<Sum>i<d. F k i * v i) * (\<Sum>j<d. F k j * v j) =
        (\<Sum>i<d. \<Sum>j<d. (cnj (F k i) * cnj (v i)) * (F k j * v j))"
      by (simp only: cnj_sum complex_cnj_mult sum_product)
    also have "\<dots> = (\<Sum>i<d. \<Sum>j<d. (cnj (F k i) * F k j) * (cnj (v i) * v j))"
      by (intro sum.cong refl) (simp only: mult_ac)
    finally show "cnj (\<Sum>i<d. F k i * v i) * (\<Sum>j<d. F k j * v j) =
        (\<Sum>i<d. \<Sum>j<d. (cnj (F k i) * F k j) * (cnj (v i) * v j))" .
  qed
  also have "\<dots> = (\<Sum>i<d. \<Sum>k<d. \<Sum>j<d. (cnj (F k i) * F k j) * (cnj (v i) * v j))"
    by (rule sum.swap)
  also have "\<dots> = (\<Sum>i<d. \<Sum>j<d. \<Sum>k<d. (cnj (F k i) * F k j) * (cnj (v i) * v j))"
    by (rule sum.cong [OF refl]) (rule sum.swap)
  also have "\<dots> = (\<Sum>i<d. \<Sum>j<d. (\<Sum>k<d. cnj (F k i) * F k j) * (cnj (v i) * v j))"
    by (simp only: sum_distrib_right)
  also have "\<dots> = (\<Sum>i<d. \<Sum>j<d. (if i = j then 1 else 0) * (cnj (v i) * v j))"
    by (intro sum.cong refl) (simp add: orth)
  also have "\<dots> = (\<Sum>i<d. \<Sum>j<d. (if j = i then cnj (v i) * v j else 0))"
    by (intro sum.cong refl) simp
  also have "\<dots> = (\<Sum>i<d. cnj (v i) * v i)"
    by (intro sum.cong refl) simp
  also have "\<dots> = complex_of_real (\<Sum>i<d. (cmod (v i))\<^sup>2)"
    by (simp only: of_real_sum sq)
  finally show ?thesis
    by (simp only: of_real_eq_iff)
qed

subsection \<open>The expanded gate\<close>

lemma floor_log2_exp: "floor_log2 (2 ^ j) = j"
proof (induction j)
  case 0
  show ?case by (simp add: floor_log2.simps)
next
  case (Suc j)
  have "floor_log2 (2 ^ Suc j) = Suc (floor_log2 (2 ^ Suc j div 2))"
    by (subst floor_log2.simps) simp
  with Suc show ?case
    by simp
qed

lemma full_gate_entry_value:
  assumes sq: "square m" and len: "length m = 2 ^ length qs"
  shows "full_gate_entry m qs msk (int k) (int i) =
    Inr (if int i AND NOT msk = int k AND NOT msk
         then m ! local_index qs k ! local_index qs i else 0)"
proof -
  have nn: "0 \<le> gather (sort qs) (int k) 0 0" "0 \<le> gather (sort qs) (int i) 0 0"
    by (rule gather_nonneg, simp)+
  have lk: "local_index qs k < length m" and li: "local_index qs i < length m"
    by (simp_all only: len local_index_less)
  have row: "length (m ! local_index qs k) = length m"
    using sq lk by (rule square_row_length)
  have "getitem2 m (gather (sort qs) (int k) 0 0) (gather (sort qs) (int i) 0 0) =
      Inr (m ! local_index qs k ! local_index qs i)"
    using nn lk li row by (simp add: getitem2_def local_index_def)
  then show ?thesis
    by (simp add: full_gate_entry_def extract_loop_gather)
qed

lemma expand_value:
  assumes sq: "square m" and len: "length m = 2 ^ length qs"
    and msk: "mask_loop qs 0 = Inr msk"
  shows "expand_gate_to_full_space s m qs =
    Inr (map (\<lambda>k. map (\<lambda>i. if int i AND NOT msk = int k AND NOT msk
                              then m ! local_index qs k ! local_index qs i else 0)
                    [0..<dimension s])
             [0..<dimension s])"
proof -
  have "try_map (\<lambda>k. try_map (\<lambda>i. full_gate_entry m qs msk (int k) (int i)) [0..<dimension s])
      [0..<dimension s] =
    Inr (map (\<lambda>k. map (\<lambda>i. if int i AND NOT msk = int k AND NOT msk
                              then m ! local_index qs k ! local_index qs i else 0)
                    [0..<dimension s])
             [0..<dimension s])"
    by (intro try_map_all_Inr) (simp only: full_gate_entry_value [OF sq len])
  then show ?thesis
    by (simp add: expand_gate_to_full_space_def msk)
qed

subsection \<open>Orthogonality of the columns of the expanded gate\<close>

lemma full_gate_orthogonal:
  fixes F :: "nat \<Rightarrow> nat \<Rightarrow> complex"
  assumes dist: "distinct qs"
    and range: "\<forall>q\<in>set qs. 0 \<le> q \<and> q < int n"
    and msk: "\<forall>p. bit msk p \<longleftrightarrow> int p \<in> set qs"
    and un: "unitary m"
    and len: "length m = 2 ^ length qs"
    and i: "i < 2 ^ n" and j: "j < 2 ^ n"
    and F: "\<And>k i. F k i = (if int i AND NOT msk = int k AND NOT msk
                            then m ! local_index qs k ! local_index qs i else 0)"
  shows "(\<Sum>k<2 ^ n. cnj (F k i) * F k j) = (if i = j then 1 else 0)"
proof (cases "int i AND NOT msk = int j AND NOT msk")
  case False
  then have "i \<noteq> j"
    by auto
  moreover have zero: "cnj (F k i) * F k j = 0" for k
    using False by (auto simp: F)
  have "(\<Sum>k<2 ^ n. cnj (F k i) * F k j) = 0"
    by (simp only: zero sum.neutral_const)
  ultimately show ?thesis
    by simp
next
  case True
  have nonneg: "\<forall>q\<in>set qs. 0 \<le> q"
    using range by blast
  let ?r = "int i AND NOT msk"
  let ?h = "\<lambda>a. cnj (m ! a ! local_index qs i) * m ! a ! local_index qs j"
  have "(\<Sum>k<2 ^ n. cnj (F k i) * F k j) =
      (\<Sum>k<2 ^ n. if int k AND NOT msk = ?r then ?h (local_index qs k) else 0)"
    using True by (intro sum.cong refl) (auto simp: F)
  also have "\<dots> = (\<Sum>k\<in>{k \<in> {..<2 ^ n}. int k AND NOT msk = ?r}. ?h (local_index qs k))"
    by (simp only: sum.inter_filter [OF finite_lessThan])
  also have "\<dots> = (\<Sum>a<2 ^ length qs. ?h a)"
  proof (rule sum.reindex_bij_witness [where i = "global_index qs ?r" and j = "local_index qs"])
    fix k :: nat
    assume k: "k \<in> {k \<in> {..<2 ^ n}. int k AND NOT msk = ?r}"
    then have r: "?r = int k AND NOT msk"
      by simp
    show "global_index qs ?r (local_index qs k) = k"
      unfolding r by (rule global_of_local [OF nonneg msk])
    show "local_index qs k \<in> {..<2 ^ length qs}"
      by (simp add: local_index_less)
    show "?h (local_index qs k) = ?h (local_index qs k)" ..
  next
    fix a :: nat
    assume "a \<in> {..<2 ^ length qs}"
    then have a: "a < 2 ^ length qs"
      by simp
    show "local_index qs (global_index qs ?r a) = a"
      by (rule local_of_global [OF dist nonneg msk a])
    have "global_index qs ?r a < 2 ^ n"
      by (rule global_index_less [OF range i])
    moreover have "int (global_index qs ?r a) AND NOT msk = ?r"
      by (rule rest_of_global [OF nonneg msk])
    ultimately show "global_index qs ?r a \<in> {k \<in> {..<2 ^ n}. int k AND NOT msk = ?r}"
      by simp
  qed
  also have "\<dots> = (\<Sum>a<length m. ?h a)"
    by (simp only: len)
  also have "\<dots> = (if local_index qs i = local_index qs j then 1 else 0)"
    by (rule unitary_entries [OF un]) (simp_all only: len local_index_less)
  also have "\<dots> = (if i = j then 1 else 0)"
    using local_index_inj [OF nonneg msk True] by auto
  finally show ?thesis .
qed

subsection \<open>One unitary call\<close>

lemma apply_gate_unitary_step:
  assumes dim: "dimension s = 2 ^ n"
    and lv: "length (statevector s) = dimension s"
    and un: "unitary m"
    and len: "length m = 2 ^ length qs"
    and dist: "distinct qs"
    and range: "\<forall>q\<in>set qs. 0 \<le> q \<and> q < int n"
  shows "\<exists>v. apply_gate s m qs = (Inr (), s\<lparr>statevector := v\<rparr>) \<and>
    length v = dimension s \<and> norm_sq v = norm_sq (statevector s)"
proof -
  have nonneg: "\<forall>q\<in>set qs. 0 \<le> q"
    using range by blast
  from mask_loop_bits [OF nonneg, of 0] obtain msk
    where ml: "mask_loop qs 0 = Inr msk" and msk: "\<forall>p. bit msk p \<longleftrightarrow> int p \<in> set qs"
    by auto
  define F :: "nat \<Rightarrow> nat \<Rightarrow> complex"
    where "F k i = (if int i AND NOT msk = int k AND NOT msk
                    then m ! local_index qs k ! local_index qs i else 0)" for k i
  define w where "w = map (\<lambda>k. \<Sum>i<2 ^ n. F k i * statevector s ! i) [0..<2 ^ n]"
  have sq: "square m"
    using un by (simp add: unitary_def)
  have ex: "expand_gate_to_full_space s m qs =
      Inr (map (\<lambda>k. map (F k) [0..<2 ^ n]) [0..<2 ^ n])"
    unfolding expand_value [OF sq len ml] dim F_def ..
  have lv': "length (statevector s) = 2 ^ n"
    using lv dim by simp
  have "dot (map (\<lambda>k. map (F k) [0..<2 ^ n]) [0..<2 ^ n]) (statevector s) = w"
    by (simp add: dot_def w_def sum_list_map2_upt [OF lv'] comp_def)
  moreover have "int_log2 (length m) = Inr (length qs)"
    by (simp add: int_log2_def len floor_log2_exp)
  ultimately have ap: "apply_gate s m qs = (Inr (), s\<lparr>statevector := w\<rparr>)"
    by (simp add: apply_gate_def ex)
  have "norm_sq w = (\<Sum>k<2 ^ n. (cmod (\<Sum>i<2 ^ n. F k i * statevector s ! i))\<^sup>2)"
    unfolding w_def by (rule norm_sq_upt)
  also have "\<dots> = (\<Sum>i<2 ^ n. (cmod (statevector s ! i))\<^sup>2)"
    by (rule isometry_sum) (rule full_gate_orthogonal [OF dist range msk un len _ _ F_def])
  also have "\<dots> = norm_sq (statevector s)"
    by (simp only: norm_sq_nth lv')
  finally have "norm_sq w = norm_sq (statevector s)" .
  moreover have "length w = dimension s"
    by (simp add: w_def dim)
  ultimately show ?thesis
    using ap by blast
qed

subsection \<open>Sequences of unitary calls\<close>

lemma apply_gate_raise_unchanged:
  "fst (apply_gate s m qs) = Inl e \<Longrightarrow> snd (apply_gate s m qs) = s"
  by (auto simp: apply_gate_def Let_def split: sum.splits if_splits)

lemma apply_gate_wrong_count:
  assumes "length m = 2 ^ j" and "j \<noteq> length qs"
  shows "snd (apply_gate s m qs) = s"
proof -
  have "int_log2 (length m) = Inr j"
    by (simp add: int_log2_def assms(1) floor_log2_exp)
  with assms(2) show ?thesis
    by (simp add: apply_gate_def)
qed

lemma unitary_call_step:
  assumes ok: "engine_ok s" and call: "unitary_call (num_qubits s) (m, qs)"
  shows "engine_ok (snd (apply_gate s m qs)) \<and>
    num_qubits (snd (apply_gate s m qs)) = num_qubits s \<and>
    norm_sq (statevector (snd (apply_gate s m qs))) = norm_sq (statevector s)"
proof -
  from call obtain j where un: "unitary m" and j: "length m = 2 ^ j" and dist: "distinct qs"
    and range: "\<forall>q\<in>set qs. 0 \<le> q \<and> q < num_qubits s"
    by (auto simp: unitary_call_def list_all_iff)
  show ?thesis
  proof (cases "j = length qs")
    case False
    with j have "snd (apply_gate s m qs) = s"
      by (rule apply_gate_wrong_count)
    with ok show ?thesis
      by simp
  next
    case True
    from ok have dim: "dimension s = 2 ^ nat (num_qubits s)"
      and lv: "length (statevector s) = dimension s" and pos: "1 \<le> num_qubits s"
      by (simp_all add: engine_ok_def)
    have range': "\<forall>q\<in>set qs. 0 \<le> q \<and> q < int (nat (num_qubits s))"
      using range pos by simp
    from apply_gate_unitary_step [OF dim lv un j [unfolded True] dist range'] obtain v
      where "apply_gate s m qs = (Inr (), s\<lparr>statevector := v\<rparr>)"
        and "length v = dimension s" and "norm_sq v = norm_sq (statevector s)"
      by blast
    with ok show ?thesis
      by (simp add: engine_ok_def)
  qed
qed

lemma run_calls_keep_norm:
  assumes "engine_ok s" and "list_all (unitary_call (num_qubits s)) calls"
  shows "norm_sq (statevector (run_calls s calls)) = norm_sq (statevector s)"
  using assms
proof (induction calls arbitrary: s)
  case Nil
  show ?case by (simp add: run_calls_def)
next
  case (Cons c calls)
  obtain m qs where c: "c = (m, qs)"
    by (cases c)
  let ?s = "snd (apply_gate s m qs)"
  from Cons.prems c have call: "unitary_call (num_qubits s) (m, qs)"
    and rest: "list_all (unitary_call (num_qubits s)) calls"
    by simp_all
  from unitary_call_step [OF Cons.prems(1) call]
  have ok: "engine_ok ?s" and nq: "num_qubits ?s = num_qubits s"
    and norm: "norm_sq (statevector ?s) = norm_sq (statevector s)"
    by simp_all
  have "run_calls s (c # calls) = run_calls ?s calls"
    by (simp add: run_calls_def c)
  moreover have "norm_sq (statevector (run_calls ?s calls)) = norm_sq (statevector ?s)"
    using ok rest by (intro Cons.IH) (simp_all only: nq)
  ultimately show ?case
    using norm by simp
qed

lemma norm_sq_zero_state: "0 < d \<Longrightarrow> norm_sq (zero_state d) = 1"
proof -
  assume d: "0 < d"
  have "norm_sq (zero_state d) = (\<Sum>i<d. (cmod (zero_state d ! i))\<^sup>2)"
    by (simp add: norm_sq_nth zero_state_def)
  also have "\<dots> = (\<Sum>i<d. if i = 0 then 1 else 0)"
    by (intro sum.cong refl) (simp add: zero_state_def nth_list_update)
  also have "\<dots> = 1"
    using d by simp
  finally show ?thesis .
qed

lemma init_engine:
  assumes "init n uj = Inr s"
  shows "engine_ok s \<and> num_qubits s = n \<and> norm_sq (statevector s) = 1"
proof -
  from assms have n: "1 \<le> n" "n \<le> 16"
    and s: "s = \<lparr>num_qubits = n, dimension = 2 ^ nat n, use_jax = uj,
                   statevector = zero_state (2 ^ nat n)\<rparr>"
    by (simp_all add: init_def split: if_splits)
  have "length (zero_state (2 ^ nat n)) = 2 ^ nat n"
    by (simp add: zero_state_def)
  moreover have "norm_sq (zero_state (2 ^ nat n)) = 1"
    by (rule norm_sq_zero_state) simp
  ultimately show ?thesis
    using n by (simp add: s engine_ok_def)
qed

text \<open>
  With exact amplitudes, from the all-zero state of a freshly constructed engine, a sequence
  of \<open>apply_gate\<close> calls whose matrices are unitary with a power of two as size and whose
  index lists are distinct and in range keeps the sum of the squared magnitudes at 1 after
  each call: a call whose number of indices does not fit the size raises and changes
  nothing, the others multiply by an isometry. This says nothing about the rounding of
  the floating-point arrays.
\<close>

lemma unitary_calls_keep_norm_exact:
  assumes "init n uj = Inr s0" and "list_all (unitary_call n) calls" and "k \<le> length calls"
  shows "norm_sq (statevector (run_calls s0 (take k calls))) = 1"
proof -
  from init_engine [OF assms(1)]
  have ok: "engine_ok s0" and nq: "num_qubits s0 = n" and one: "norm_sq (statevector s0) = 1"
    by simp_all
  have "list_all (unitary_call (num_qubits s0)) (take k calls)"
    using assms(2) nq by (auto simp: list_all_iff dest: in_set_takeD)
  from run_calls_keep_norm [OF ok this] one show ?thesis
    by simp
qed

lemma unitary_shift3: "unitary [[0, 1, 0], [0, 0, 1], [1, 0, 0]]"
  by (simp add: unitary_def square_def matmul_def dagger_def ncols_def identity_def
      upt_rec [of 0 3] upt_rec [of 1 3] upt_rec [of 2 3])

lemma floor_log2_3: "floor_log2 (Suc (Suc (Suc 0))) = 1"
  by (simp add: floor_log2.simps)

lemma expand_shift3:
  "dimension s = 2 \<Longrightarrow>
   expand_gate_to_full_space s [[0, 1, 0], [0, 0, 1], [1, 0, 0]] [0] = Inr [[0, 1], [0, 0]]"
  by (simp add: expand_gate_to_full_space_def upt_2 full_gate_entry_def getitem2_def)

text \<open>
  Claim C6. After every call of a sequence of \<open>apply_gate\<close> calls with unitary matrices
  and distinct indices in range, the sum of the squared magnitudes is claimed to be 1
  within \<open>1e-9\<close>. The size check of \<open>apply_gate\<close> compares the number of indices with
  \<open>int(log2(rows))\<close>, which is 1 for three rows: the unitary cyclic shift of three rows is
  accepted with one index, its upper left block is applied, and on one qubit the all-zero
  state \<open>[1, 0]\<close> becomes \<open>[0, 0]\<close>, whose sum of squares is 0.
\<close>

theorem unitary_3x3_loses_norm:
  "unitary [[0, 1, 0], [0, 0, 1], [1, 0, 0]] \<and> distinct [0 :: int] \<and>
   list_all (\<lambda>q. 0 \<le> q \<and> q < 1) [0 :: int] \<and>
   init 1 False =
     Inr \<lparr>num_qubits = 1, dimension = 2, use_jax = False, statevector = [1, 0]\<rparr> \<and>
   apply_gate \<lparr>num_qubits = 1, dimension = 2, use_jax = False, statevector = [1, 0]\<rparr>
     [[0, 1, 0], [0, 0, 1], [1, 0, 0]] [0] =
   (Inr (), \<lparr>num_qubits = 1, dimension = 2, use_jax = False, statevector = [0, 0]\<rparr>) \<and>
   \<not> \<bar>norm_sq [0, 0] - 1\<bar> \<le> 1 / 10 ^ 9"
  by (simp add: unitary_shift3 init_1 apply_gate_def int_log2_def floor_log2_3 expand_shift3
      dot_def norm_sq_def)

section \<open>Measuring twice\<close>

text \<open>
  What does hold for a second measurement: when the first one did not reset the engine, a
  second measurement of the same qubit with a draw strictly between 0 and 1 returns the
  same outcome, for any amplitudes.
\<close>

lemma fold_cond_sum:
  fixes f :: "nat \<Rightarrow> real"
  shows "fold (\<lambda>i p. if c i then p + f i else p) [0..<d] a =
    a + (\<Sum>i<d. if c i then f i else 0)"
  by (induction d arbitrary: a) simp_all

lemma prob_0_loop_sum:
  "prob_0_loop v d q =
     (\<Sum>i<d. if drop_bit (nat q) (int i) AND 1 = 0 then (cmod (v ! i))\<^sup>2 else 0)"
  by (simp add: prob_0_loop_def fold_cond_sum)

lemma collapse_nth:
  "i < d \<Longrightarrow> collapse v d q b ! i = (if drop_bit (nat q) (int i) AND 1 = b then v ! i else 0)"
  by (simp add: collapse_def)

lemma l2_norm_collapse_sq:
  "(l2_norm (collapse v d q b))\<^sup>2 =
     (\<Sum>i<d. if drop_bit (nat q) (int i) AND 1 = b then (cmod (v ! i))\<^sup>2 else 0)"
proof -
  have "sum_list (map (\<lambda>z. (cmod z)\<^sup>2) (collapse v d q b)) =
      (\<Sum>i<d. if drop_bit (nat q) (int i) AND 1 = b then (cmod (v ! i))\<^sup>2 else 0)"
    unfolding collapse_def map_map sum_list_upt
    by (intro sum.cong refl) simp
  moreover have "0 \<le> (\<Sum>i<d. if drop_bit (nat q) (int i) AND 1 = b then (cmod (v ! i))\<^sup>2 else 0)"
    by (intro sum_nonneg) simp
  ultimately show ?thesis
    by (simp add: l2_norm_def)
qed

lemma prob_0_after_collapse:
  assumes r: "0 < r" and b: "b = 0 \<or> b = 1"
    and r_def: "r = l2_norm (collapse v d q b)"
  shows "prob_0_loop (map (\<lambda>z. z / complex_of_real r) (collapse v d q b)) d q =
    (if b = 0 then 1 else 0)"
proof -
  let ?t = "\<lambda>i. drop_bit (nat q) (int i) AND 1"
  have len: "length (collapse v d q c) = d" for c
    by (simp add: collapse_def)
  have entry: "(if ?t i = 0
      then (cmod (map (\<lambda>z. z / complex_of_real r) (collapse v d q b) ! i))\<^sup>2 else 0) =
      (if b = 0 then (if ?t i = b then (cmod (v ! i))\<^sup>2 else 0) / r\<^sup>2 else 0)"
    if "i \<in> {..<d}" for i
    using that r b by (auto simp: len collapse_nth norm_divide power_divide)
  have "prob_0_loop (map (\<lambda>z. z / complex_of_real r) (collapse v d q b)) d q =
      (\<Sum>i<d. if b = 0 then (if ?t i = b then (cmod (v ! i))\<^sup>2 else 0) / r\<^sup>2 else 0)"
    unfolding prob_0_loop_sum by (rule sum.cong [OF refl entry])
  also have "\<dots> = (if b = 0 then (\<Sum>i<d. if ?t i = b then (cmod (v ! i))\<^sup>2 else 0) / r\<^sup>2 else 0)"
    by (simp add: sum_divide_distrib)
  also have "\<dots> = (if b = 0 then r\<^sup>2 / r\<^sup>2 else 0)"
    by (simp only: r_def l2_norm_collapse_sq)
  also have "\<dots> = (if b = 0 then 1 else 0)"
    using r by simp
  finally show ?thesis .
qed

lemma remeasure_repeats:
  assumes q: "0 \<le> q" "q < num_qubits s"
    and first: "measure s q u1 = (Inr b, s')"
    and kept: "l2_norm (collapse (statevector s) (dimension s) q b) > 1 / 10 ^ 10"
    and u2: "0 < u2" "u2 < 1"
  shows "fst (measure s' q u2) = Inr b"
proof -
  let ?r = "l2_norm (collapse (statevector s) (dimension s) q b)"
  from first q have b: "b = (if u1 > prob_0_loop (statevector s) (dimension s) q then 1 else 0)"
    by (simp add: measure_def get_statevector_def Let_def split: if_splits)
  then have b01: "b = 0 \<or> b = 1"
    by simp
  from first q kept b have s': "s' = s\<lparr>statevector :=
      map (\<lambda>z. z / complex_of_real ?r) (collapse (statevector s) (dimension s) q b)\<rparr>"
    by (simp add: measure_def get_statevector_def Let_def split: if_splits)
  have r: "0 < ?r"
    using kept by (rule less_trans [rotated]) simp
  have p: "prob_0_loop (statevector s') (dimension s') q = (if b = 0 then 1 else 0)"
    unfolding s' using prob_0_after_collapse [OF r b01 refl] by simp
  have nq: "num_qubits s' = num_qubits s"
    by (simp add: s')
  show ?thesis
    using q u2 b01 by (auto simp: measure_def get_statevector_def Let_def p nq)
qed

section \<open>Index validation\<close>

lemma expand_x_5_of_2:
  "dimension s = 4 \<Longrightarrow> expand_gate_to_full_space s [[a, b], [c, d]] [5] =
     Inr [[a, 0, 0, 0], [0, a, 0, 0], [0, 0, a, 0], [0, 0, 0, a]]"
  by (simp add: expand_gate_to_full_space_def upt_4 full_gate_entry_def getitem2_def)

lemma expand_two_qubit_00_of_2:
  "dimension s = 4 \<Longrightarrow> expand_gate_to_full_space s
      [[a0, a1, a2, a3], [b0, b1, b2, b3], [c0, c1, c2, c3], [d0, d1, d2, d3]] [0, 0] =
     Inr [[a0, a3, 0, 0], [d0, d3, 0, 0], [0, 0, a0, a3], [0, 0, d0, d3]]"
  by (simp add: expand_gate_to_full_space_def upt_4 full_gate_entry_def getitem2_def)

text \<open>
  The engine itself accepts an index beyond the last qubit and a repeated index: on two
  qubits \<open>apply_gate(X, [5])\<close> and \<open>apply_gate(CNOT, [0, 0])\<close> both return.
\<close>

theorem apply_gate_accepts_bad_indices:
  "apply_gate \<lparr>num_qubits = 2, dimension = 4, use_jax = False, statevector = [1, 0, 0, 0]\<rparr>
     X [5] =
   (Inr (), \<lparr>num_qubits = 2, dimension = 4, use_jax = False, statevector = [0, 0, 0, 0]\<rparr>) \<and>
   apply_gate \<lparr>num_qubits = 2, dimension = 4, use_jax = False, statevector = [1, 0, 0, 0]\<rparr>
     CNOT [0, 0] =
   (Inr (), \<lparr>num_qubits = 2, dimension = 4, use_jax = False, statevector = [1, 0, 0, 0]\<rparr>)"
  by (simp add: apply_gate_def int_log2_def floor_log2_2 floor_log2_4 X_def CNOT_def
      expand_x_5_of_2 expand_two_qubit_00_of_2 dot_def)

lemma validate_qubits_in_range:
  "list_all (\<lambda>q. 0 \<le> q \<and> q < n) qs \<Longrightarrow> validate_qubits n qs = Inr ()"
  by (induction qs) auto

lemma validate_qubits_first:
  "find (\<lambda>q. q < 0 \<or> q \<ge> n) qs = Some q \<Longrightarrow>
     validate_qubits n qs = Inl (ValueError (QubitRangeMsg q n))"
  by (induction qs) (auto split: if_splits)

lemma find_first_out_of_range:
  "list_ex p qs \<Longrightarrow> \<exists>q. find p qs = Some q"
  by (cases "find p qs") (auto simp: find_None_iff list_ex_iff)

lemma apply_gate_negative_index:
  assumes "length g = 2 ^ length qs" and "list_ex (\<lambda>q. q < 0) qs"
  shows "apply_gate s g qs = (Inl (ValueError NegativeShiftCount), s)"
proof -
  have "int_log2 (length g) = Inr (length qs)"
    by (simp add: int_log2_def assms(1) floor_log2_exp)
  moreover have "mask_loop qs 0 = Inl (ValueError NegativeShiftCount)"
    using assms(2) by (intro mask_loop_negative) (simp add: list_ex_iff)
  ultimately show ?thesis
    by (simp add: apply_gate_def expand_gate_to_full_space_def)
qed

lemma apply_gate_nonneg_returns:
  assumes "square g" and "length g = 2 ^ length qs" and "list_all (\<lambda>q. 0 \<le> q) qs"
  shows "fst (apply_gate s g qs) = Inr ()"
proof -
  have "int_log2 (length g) = Inr (length qs)"
    by (simp add: int_log2_def assms(2) floor_log2_exp)
  moreover from assms(3) have "\<forall>q\<in>set qs. 0 \<le> q"
    by (simp add: list_all_iff)
  from mask_loop_bits [OF this, of 0] obtain msk where "mask_loop qs 0 = Inr msk"
    by blast
  note expand_value [OF assms(1,2) this, of s]
  ultimately show ?thesis
    by (simp add: apply_gate_def)
qed

text \<open>
  Claim C3, as the code has it. The range of the indices is checked by
  \<open>QuantumCircuit.apply\<close>, which records the calls for \<open>apply_gate\<close>: with an array as
  gate and some listed index outside \<open>[0, n)\<close> it raises the ValueError that names the
  first such index of the list and records nothing; every list of indices in range is
  recorded, repeated indices included. \<open>apply_gate\<close> itself, given a square matrix of
  \<open>2 ^ k\<close> rows and \<open>k\<close> indices, raises only for a negative index (the ValueError of the
  negative shift count, before any write); with indices that are not negative it
  returns, whether or not they are below \<open>n\<close> and whether or not they repeat.
\<close>

theorem qubit_index_validation:
  "(list_ex (\<lambda>q. q < 0 \<or> q \<ge> qc_num_qubits c) qubits \<longrightarrow>
      (\<exists>q. find (\<lambda>q. q < 0 \<or> q \<ge> qc_num_qubits c) qubits = Some q \<and>
         apply_qc c (GateArray m) qubits kw =
           (Inl (ValueError (QubitRangeMsg q (qc_num_qubits c))), c))) \<and>
   (list_all (\<lambda>q. 0 \<le> q \<and> q < qc_num_qubits c) qubits \<longrightarrow>
      apply_qc c (GateArray m) qubits kw =
        (Inr (), c\<lparr>gates := gates c @ [(m, qubits)]\<rparr>)) \<and>
   (length g = 2 ^ length qs \<and> list_ex (\<lambda>q. q < 0) qs \<longrightarrow>
      apply_gate s g qs = (Inl (ValueError NegativeShiftCount), s)) \<and>
   (square g \<and> length g = 2 ^ length qs \<and> list_all (\<lambda>q. 0 \<le> q) qs \<longrightarrow>
      fst (apply_gate s g qs) = Inr ())"
proof (intro conjI impI)
  assume "list_ex (\<lambda>q. q < 0 \<or> q \<ge> qc_num_qubits c) qubits"
  from find_first_out_of_range [OF this] obtain q
    where q: "find (\<lambda>q. q < 0 \<or> q \<ge> qc_num_qubits c) qubits = Some q"
    by blast
  from validate_qubits_first [OF this]
  have "apply_qc c (GateArray m) qubits kw =
      (Inl (ValueError (QubitRangeMsg q (qc_num_qubits c))), c)"
    by (simp add: apply_qc_def)
  with q show "\<exists>q. find (\<lambda>q. q < 0 \<or> q \<ge> qc_num_qubits c) qubits = Some q \<and>
         apply_qc c (GateArray m) qubits kw =
           (Inl (ValueError (QubitRangeMsg q (qc_num_qubits c))), c)"
    by blast
next
  assume "list_all (\<lambda>q. 0 \<le> q \<and> q < qc_num_qubits c) qubits"
  from validate_qubits_in_range [OF this]
  show "apply_qc c (GateArray m) qubits kw = (Inr (), c\<lparr>gates := gates c @ [(m, qubits)]\<rparr>)"
    by (simp add: apply_qc_def)
next
  assume "length g = 2 ^ length qs \<and> list_ex (\<lambda>q. q < 0) qs"
  then show "apply_gate s g qs = (Inl (ValueError NegativeShiftCount), s)"
    using apply_gate_negative_index by blast
next
  assume "square g \<and> length g = 2 ^ length qs \<and> list_all (\<lambda>q. 0 \<le> q) qs"
  then show "fst (apply_gate s g qs) = Inr ()"
    using apply_gate_nonneg_returns by blast
qed

theorem qubit_index_validation_witness:
  "list_ex (\<lambda>q. q < 0 \<or> q \<ge> 2) [0, 5, - 1 :: int] \<and>
   find (\<lambda>q. q < 0 \<or> q \<ge> 2) [0, 5, - 1 :: int] = Some 5 \<and>
   apply_qc \<lparr>qc_num_qubits = 2,
       simulator = \<lparr>num_qubits = 2, dimension = 4, use_jax = False,
                     statevector = [1, 0, 0, 0]\<rparr>,
       gates = [], measurements = [], executed = False\<rparr> (GateArray CNOT) [0, 5, - 1] [] =
     (Inl (ValueError (QubitRangeMsg 5 2)),
      \<lparr>qc_num_qubits = 2,
       simulator = \<lparr>num_qubits = 2, dimension = 4, use_jax = False,
                     statevector = [1, 0, 0, 0]\<rparr>,
       gates = [], measurements = [], executed = False\<rparr>) \<and>
   list_all (\<lambda>q. 0 \<le> q \<and> q < 2) [0, 0 :: int] \<and>
   apply_qc \<lparr>qc_num_qubits = 2,
       simulator = \<lparr>num_qubits = 2, dimension = 4, use_jax = False,
                     statevector = [1, 0, 0, 0]\<rparr>,
       gates = [], measurements = [], executed = False\<rparr> (GateArray CNOT) [0, 0] [] =
     (Inr (),
      \<lparr>qc_num_qubits = 2,
       simulator = \<lparr>num_qubits = 2, dimension = 4, use_jax = False,
                     statevector = [1, 0, 0, 0]\<rparr>,
       gates = [(CNOT, [0, 0])], measurements = [], executed = False\<rparr>) \<and>
   length CNOT = 2 ^ length [1, - 1 :: int] \<and> list_ex (\<lambda>q. q < 0) [1, - 1 :: int] \<and>
   apply_gate \<lparr>num_qubits = 2, dimension = 4, use_jax = False, statevector = [1, 0, 0, 0]\<rparr>
     CNOT [1, - 1] =
     (Inl (ValueError NegativeShiftCount),
      \<lparr>num_qubits = 2, dimension = 4, use_jax = False, statevector = [1, 0, 0, 0]\<rparr>) \<and>
   square CNOT \<and> list_all (\<lambda>q. 0 \<le> q) [5, 5 :: int] \<and>
   fst (apply_gate
     \<lparr>num_qubits = 2, dimension = 4, use_jax = False, statevector = [1, 0, 0, 0]\<rparr>
     CNOT [5, 5]) = Inr ()"
proof -
  let ?s = "\<lparr>num_qubits = 2, dimension = 4, use_jax = False, statevector = [1, 0, 0, 0]\<rparr>"
  let ?c = "\<lparr>qc_num_qubits = 2, simulator = ?s, gates = [], measurements = [],
              executed = False\<rparr>"
  have bad: "list_ex (\<lambda>q. q < 0 \<or> q \<ge> qc_num_qubits ?c) [0, 5, - 1 :: int]"
    by simp
  have first: "find (\<lambda>q. q < 0 \<or> q \<ge> qc_num_qubits ?c) [0, 5, - 1 :: int] = Some 5"
    by simp
  have good: "list_all (\<lambda>q. 0 \<le> q \<and> q < qc_num_qubits ?c) [0, 0 :: int]"
    by simp
  have len: "length CNOT = 2 ^ length [1, - 1 :: int]" "length CNOT = 2 ^ length [5, 5 :: int]"
    by (simp_all add: CNOT_def)
  have neg: "list_ex (\<lambda>q. q < 0) [1, - 1 :: int]"
    by simp
  have sq: "square CNOT"
    by (simp add: CNOT_def square_def)
  have nonneg: "list_all (\<lambda>q. 0 \<le> q) [5, 5 :: int]"
    by simp
  note thm1 = qubit_index_validation [of ?c "[0, 5, - 1]" CNOT "[]" CNOT "[1, - 1]" ?s]
  note thm2 = qubit_index_validation [of ?c "[0, 0]" CNOT "[]" CNOT "[5, 5]" ?s]
  have one: "apply_qc ?c (GateArray CNOT) [0, 5, - 1] [] =
      (Inl (ValueError (QubitRangeMsg 5 2)), ?c)"
    using thm1 bad first by auto
  have two: "apply_qc ?c (GateArray CNOT) [0, 0] [] =
      (Inr (), ?c\<lparr>gates := gates ?c @ [(CNOT, [0, 0])]\<rparr>)"
    using thm2 good by blast
  have three: "apply_gate ?s CNOT [1, - 1] = (Inl (ValueError NegativeShiftCount), ?s)"
    using thm1 len(1) neg by blast
  have four: "fst (apply_gate ?s CNOT [5, 5]) = Inr ()"
    using thm2 sq len(2) nonneg by blast
  from one two three four bad first good len(1) neg sq nonneg show ?thesis
    by simp
qed

end
